theory Spec2Isabelle
  imports Main "HOL-Library.Word"
begin

unbundle bit_operations_syntax

section \<open>The append-only, size-bounded file logger\<close>

text \<open>
  A shallow embedding of \<^verbatim>\<open>AppendOnlyFSLogger\<close> (\<^verbatim>\<open>src/append-fs-logger.js\<close>) and of
  the guards of \<^verbatim>\<open>MainLogger._log\<close> in front of it. The logger object is a record, every
  method takes the logger and the outside world and returns both, and the outcome of every
  system call the method awaits is an input (the record \<open>io\<close>). A method whose JavaScript
  name starts with an underscore has the prefix \<open>priv_\<close> here.

  The model is sequential: one call runs to its end before the next one starts. Between
  two calls \<^verbatim>\<open>pendingFlush\<close> is therefore null, unless a round has been rejected: then
  \<^verbatim>\<open>flush\<close> does not reach line 231 and the field keeps the rejected promise. The
  interleaving of several callers on the event loop is not modelled.
\<close>

subsection \<open>Bytes, strings and numbers\<close>

text \<open>
  A \<^verbatim>\<open>Buffer\<close> is a list of bytes. A JavaScript string is a list of UTF-16 code units, and
  \<^verbatim>\<open>str.length\<close> and \<^verbatim>\<open>str.slice\<close> count code units. The numbers of the logger
  (\<^verbatim>\<open>lines\<close>, \<^verbatim>\<open>size\<close>, the offsets) are integers far below \<open>2 ^ 53\<close>; they are
  \<open>int\<close>.
\<close>

type_synonym byte = "8 word"
type_synonym jsstring = "16 word list"

definition js :: "string \<Rightarrow> jsstring" where
  "js cs = map (\<lambda>c. of_nat (of_char c)) cs"

definition MAX_LOG_FILE_SIZE :: int where
  "MAX_LOG_FILE_SIZE = 32 * 1024 * 1024"

definition MAX_LOG_LINE_SIZE :: nat where
  "MAX_LOG_LINE_SIZE = 32 * 1024"

definition MAX_LOG_LINES :: int where
  "MAX_LOG_LINES = 4096"

text \<open>\<^verbatim>\<open>'\n'\<close> as a code unit, and \<^verbatim>\<open>'\n'.charCodeAt(0)\<close> as a byte.\<close>

definition newLine :: "16 word" where
  "newLine = 0x000A"

definition newLineByte :: byte where
  "newLineByte = 0x0A"

text \<open>
  The value of \<^verbatim>\<open>offset + 1\<close>, the cut position handed to \<^verbatim>\<open>_truncate\<close>: a number, or
  \<^verbatim>\<open>NaN\<close> when \<^verbatim>\<open>offset\<close> is \<^verbatim>\<open>undefined\<close>. \<open>at_index\<close> is the array read
  \<^verbatim>\<open>array[k]\<close>, which is \<^verbatim>\<open>undefined\<close> (\<open>None\<close>) outside the array, and \<open>plus_number\<close>
  is \<^verbatim>\<open>+\<close> on such a value.
\<close>

datatype number = Number int | NaN

definition at_index :: "int list \<Rightarrow> int \<Rightarrow> int option" where
  "at_index xs k = (if 0 \<le> k \<and> nat k < length xs then Some (xs ! nat k) else None)"

definition plus_number :: "int option \<Rightarrow> int \<Rightarrow> number" where
  "plus_number x k = (case x of None \<Rightarrow> NaN | Some n \<Rightarrow> Number (n + k))"

subsection \<open>Errors\<close>

text \<open>
  A failed system call gives a Node error; the code reads its \<^verbatim>\<open>code\<close>,
  \<^verbatim>\<open>syscall\<close> and \<^verbatim>\<open>path\<close>.
\<close>

record cause =
  code :: string
  syscall :: string
  path :: string

text \<open>
  The constructor of \<^verbatim>\<open>OpenFailError\<close> (lines 55-69): \<^verbatim>\<open>shouldBail\<close> starts false, and
  the code, syscall and path are the cause's.
\<close>

record OpenFailError =
  message :: string
  wrapped :: cause
  shouldBail :: bool
  err_code :: string
  err_syscall :: string
  err_path :: string

definition new_OpenFailError :: "string \<Rightarrow> cause \<Rightarrow> OpenFailError" where
  "new_OpenFailError m c =
     \<lparr>message = m, wrapped = c, shouldBail = False,
      err_code = code c, err_syscall = syscall c, err_path = path c\<rparr>"

text \<open>
  Modelled from the spec: the static method \<^verbatim>\<open>wrap\<close> that \<^verbatim>\<open>OpenFailError\<close> inherits
  from \<^verbatim>\<open>WError\<close> (\<^verbatim>\<open>error.js\<close>, not among the sources). The spec says that a failure
  yields an \<^verbatim>\<open>OpenFailError\<close> wrapping the cause, not flagged bail: \<^verbatim>\<open>wrap\<close> builds the
  error with the constructor above.
\<close>

definition OpenFailError_wrap :: "string \<Rightarrow> cause \<Rightarrow> OpenFailError" where
  "OpenFailError_wrap m c = new_OpenFailError m c"

text \<open>
  The errors the logger returns or hands to \<^verbatim>\<open>onError\<close>: the two plain \<^verbatim>\<open>Error\<close>s,
  an \<^verbatim>\<open>OpenFailError\<close>, and the result of \<^verbatim>\<open>wrapf(message, cause)\<close>, whose cause is a
  failed system call or, in \<^verbatim>\<open>_write\<close>, the exception that was caught.
\<close>

datatype error =
    CannotOpenTwice
  | FdIsNull
  | OpenFail OpenFailError
  | Wrapped string cause
  | WrappedException string

text \<open>\<^verbatim>\<open>Reflect.get(err, 'shouldBail') === true\<close>: only an \<^verbatim>\<open>OpenFailError\<close> has the field.\<close>

fun bails :: "error \<Rightarrow> bool" where
  "bails (OpenFail e) = shouldBail e"
| "bails _ = False"

text \<open>
  How the promise of a method settles: it resolves with \<^verbatim>\<open>{}\<close> or \<^verbatim>\<open>null\<close> (\<open>Done\<close>),
  it resolves with \<^verbatim>\<open>{ err }\<close> (\<open>Failed\<close>), or it is rejected. The one exception thrown
  inside the methods below, and caught nowhere, is the \<^verbatim>\<open>RangeError\<close> of
  \<^verbatim>\<open>fs.createReadStream\<close> (lines 353-355), which refuses a \<^verbatim>\<open>start\<close> that is \<^verbatim>\<open>NaN\<close>
  or negative.
\<close>

datatype result = Done | Failed error | Rejected

subsection \<open>The logger and the world around it\<close>

text \<open>
  The fields of \<^verbatim>\<open>AppendOnlyFSLogger\<close> (constructor, lines 79-107), but for the
  file name, which the world below stands for, and the \<^verbatim>\<open>onError\<close> callback, whose
  calls the world records. The field \<^verbatim>\<open>size\<close> is \<open>size_bytes\<close> and \<^verbatim>\<open>_writeCalled\<close>
  is \<open>writeCalled\<close>. A file descriptor is a number or \<^verbatim>\<open>null\<close>. \<^verbatim>\<open>pendingFlush\<close> is
  \<^verbatim>\<open>null\<close> or the promise of a round, of which the model keeps how it has settled.
\<close>

record logger =
  productName :: jsstring
  fd :: "nat option"
  lines :: int
  size_bytes :: int
  bytesWritten :: int
  writeCalled :: nat
  newLineOffsets :: "int list"
  pendingFlush :: "result option"
  pendingWrites :: "jsstring list"
  hasOpened :: bool

definition new_logger :: "jsstring \<Rightarrow> logger" where
  "new_logger product =
     \<lparr>productName = product, fd = None, lines = 0, size_bytes = 0, bytesWritten = 0,
      writeCalled = 0, newLineOffsets = [], pendingFlush = None, pendingWrites = [],
      hasOpened = False\<rparr>"

text \<open>\<^verbatim>\<open>if (this.fd)\<close>: \<^verbatim>\<open>null\<close> and the number 0 are falsy.\<close>

definition truthy :: "nat option \<Rightarrow> bool" where
  "truthy f = (case f of None \<Rightarrow> False | Some n \<Rightarrow> n \<noteq> 0)"

text \<open>
  The world: the content of the file at \<^verbatim>\<open>logFileLocation\<close> (\<open>None\<close> when there is no
  such file), the descriptors that name this file, the buffers handed to \<^verbatim>\<open>fs.write\<close>
  so far, and the errors the \<^verbatim>\<open>onError\<close> callback has received.

  A descriptor names the file it was opened on, also after another file has taken the
  place of that file at \<^verbatim>\<open>logFileLocation\<close>: then it is no longer in \<open>path_fds\<close>, and what is
  written through it does not reach the file at \<^verbatim>\<open>logFileLocation\<close>. The logger reads the
  file by its name only, so the model keeps no content for a file that has been replaced.
  Closing a descriptor is not recorded: the logger closes a descriptor only after the file
  it names has been replaced (lines 388 and 425), and \<^verbatim>\<open>fs.open\<close> gives no descriptor
  that is still open.
\<close>

record world =
  logfile :: "byte list option"
  path_fds :: "nat set"
  write_calls :: "byte list list"
  reported :: "error list"

definition names_logfile :: "world \<Rightarrow> nat option \<Rightarrow> bool" where
  "names_logfile w f = (case f of None \<Rightarrow> False | Some d \<Rightarrow> d \<in> path_fds w)"

text \<open>
  The outcomes of the system calls of one round. Each call is made at most once per round.
  \<open>None\<close> (or \<open>Inr\<close>) is success. \<^verbatim>\<open>write_result\<close> is the number of bytes the kernel
  was ready to take; \<^verbatim>\<open>fs.write\<close> reports at most the length of the buffer.
\<close>

record io =
  mkdir_result :: "cause option"
  readFile_fault :: "cause option"
  open_result :: "cause + nat"
  write_result :: "cause + nat"
  pipeline_result :: "cause option"
  rename_result :: "cause option"
  close_result :: "cause option"

text \<open>\<^verbatim>\<open>fs.readFile\<close>: a missing file is the error \<^verbatim>\<open>ENOENT\<close>.\<close>

definition ENOENT :: cause where
  "ENOENT = \<lparr>code = ''ENOENT'', syscall = ''open'', path = ''''\<rparr>"

definition readFile :: "world \<Rightarrow> io \<Rightarrow> cause + byte list" where
  "readFile w i =
     (case logfile w of
        None \<Rightarrow> Inl ENOENT
      | Some buf \<Rightarrow> (case readFile_fault i of Some e \<Rightarrow> Inl e | None \<Rightarrow> Inr buf))"

subsection \<open>\<^verbatim>\<open>open\<close> (lines 109-180)\<close>

text \<open>
  The loop \<^verbatim>\<open>for (let i = 0; i < n; i++) if (buf[i] === newLineByte) offsets.push(base + i)\<close>
  of \<^verbatim>\<open>open\<close> (base 0) and of \<^verbatim>\<open>_flush\<close> (base \<^verbatim>\<open>this.size\<close>): the bytes still to
  visit, the position of the first of them, and the offsets pushed so far.
\<close>

fun push_newlines :: "byte list \<Rightarrow> int \<Rightarrow> int list \<Rightarrow> int list" where
  "push_newlines [] pos offsets = offsets"
| "push_newlines (b # bs) pos offsets =
     push_newlines bs (pos + 1) (if b = newLineByte then offsets @ [pos] else offsets)"

text \<open>
  Lines 161-179: the descriptor is opened with flag \<^verbatim>\<open>'a+'\<close>, which creates a missing
  file. The new descriptor names the file at \<^verbatim>\<open>logFileLocation\<close>.
\<close>

definition open_descriptor :: "logger \<Rightarrow> world \<Rightarrow> io \<Rightarrow> result \<times> logger \<times> world" where
  "open_descriptor s w i =
     (case open_result i of
        Inl openErr \<Rightarrow>
          (Failed (OpenFail ((OpenFailError_wrap ''Could not open log file'' openErr)
             \<lparr>shouldBail := (code openErr = ''EACCES'')\<rparr>)), s, w)
      | Inr newFd \<Rightarrow>
          (Done, s\<lparr>hasOpened := True, fd := Some newFd\<rparr>,
           w\<lparr>logfile := Some (case logfile w of None \<Rightarrow> [] | Some old \<Rightarrow> old),
             path_fds := insert newFd (path_fds w)\<rparr>))"

definition open_logger :: "logger \<Rightarrow> world \<Rightarrow> io \<Rightarrow> result \<times> logger \<times> world" where
  "open_logger s w i =
     (if truthy (fd s) then (Failed CannotOpenTwice, s, w)
      else case mkdir_result i of
        Some mkdirErr \<Rightarrow>
          (Failed (OpenFail (OpenFailError_wrap ''Could not mkdir for log file'' mkdirErr)), s, w)
      | None \<Rightarrow>
         (case readFile w i of
            Inl readErr \<Rightarrow>
              if code readErr \<noteq> ''ENOENT''
              then (Failed (OpenFail (OpenFailError_wrap ''Could not read old file'' readErr)), s, w)
              else open_descriptor s w i
          | Inr buf \<Rightarrow>
              (let offsets = push_newlines buf 0 []
               in open_descriptor
                    (s\<lparr>size_bytes := int (length buf), newLineOffsets := offsets,
                       lines := int (length offsets)\<rparr>) w i)))"

subsection \<open>\<^verbatim>\<open>_truncate\<close> (lines 349-437)\<close>

text \<open>
  \<^verbatim>\<open>array.slice(k)\<close>: from index \<open>k\<close> on, and a negative \<open>k\<close> counts from the end.
\<close>

definition slice_from :: "'a list \<Rightarrow> int \<Rightarrow> 'a list" where
  "slice_from xs k =
     (if k < 0 then drop (nat (int (length xs) + k)) xs else drop (nat k) xs)"

text \<open>
  The read stream is created first (lines 353-355), and \<^verbatim>\<open>fs.createReadStream\<close> throws
  when \<^verbatim>\<open>start\<close> is \<^verbatim>\<open>NaN\<close> or negative: the promise of \<^verbatim>\<open>_truncate\<close> is rejected
  and nothing has been done. Otherwise the copy reads the file from byte \<open>start\<close> to its
  end into the temporary file, and the rename puts the temporary file in the place of the
  log file; no descriptor names the new file yet. Without a log file the read stream fails
  with \<^verbatim>\<open>ENOENT\<close>. The descriptor that \<^verbatim>\<open>fs.open\<close> gives at line 414 names the new file.
\<close>

definition priv_truncate ::
  "logger \<Rightarrow> world \<Rightarrow> io \<Rightarrow> number \<Rightarrow> int \<Rightarrow> result \<times> logger \<times> world" where
  "priv_truncate s w i position lineIndex =
     (case position of
        NaN \<Rightarrow> (Rejected, s, w)
      | Number start \<Rightarrow>
      if start < 0 then (Rejected, s, w)
      else
      case (case logfile w of None \<Rightarrow> Some ENOENT | Some old \<Rightarrow> pipeline_result i) of
        Some pipeErr \<Rightarrow> (Failed (Wrapped ''_truncate(): could not pipeline'' pipeErr), s, w)
      | None \<Rightarrow>
         (case rename_result i of
            Some renameErr \<Rightarrow> (Failed (Wrapped ''_truncate(): could not rename'' renameErr), s, w)
          | None \<Rightarrow>
             (let w1 = w\<lparr>logfile := map_option (drop (nat start)) (logfile w), path_fds := {}\<rparr>
              in if lineIndex = - 1
                 then
                   (let s1 = s\<lparr>lines := 0, size_bytes := 0, newLineOffsets := []\<rparr>
                    in case close_result i of
                         Some closeErr \<Rightarrow>
                           (Failed (Wrapped ''_truncate(): could not close'' closeErr),
                            s1\<lparr>fd := None\<rparr>, w1)
                       | None \<Rightarrow> open_logger s1 w1 i)
                 else
                   (let s1 = s\<lparr>lines := lines s - lineIndex - 1,
                                size_bytes := size_bytes s - start,
                                newLineOffsets :=
                                  map (\<lambda>offset. offset - start)
                                    (slice_from (newLineOffsets s) (lineIndex + 1))\<rparr>
                    in case open_result i of
                         Inl openErr \<Rightarrow>
                           (Failed (Wrapped ''_truncate(): could not re open'' openErr), s1, w1)
                       | Inr newFd \<Rightarrow>
                           (let w2 = w1\<lparr>path_fds := insert newFd (path_fds w1)\<rparr>
                            in case close_result i of
                                 Some closeErr \<Rightarrow>
                                   (Failed (Wrapped ''_truncate(): could not close old fd'' closeErr),
                                    s1\<lparr>fd := Some newFd\<rparr>, w2)
                               | None \<Rightarrow> (Done, s1\<lparr>fd := Some newFd\<rparr>, w2))))))"

subsection \<open>\<^verbatim>\<open>_flush\<close> (lines 239-328)\<close>

text \<open>\<^verbatim>\<open>pendingWrites.join('\n')\<close>.\<close>

fun join :: "jsstring list \<Rightarrow> jsstring" where
  "join [] = []"
| "join [l] = l"
| "join (l # l' # ls) = l @ newLine # join (l' # ls)"

text \<open>
  \<^verbatim>\<open>Buffer.from(string)\<close> encodes the string as UTF-8. \<open>utf8\<close> encodes one code point; a
  surrogate pair is one code point, and a surrogate that stands alone becomes the
  replacement character U+FFFD.
\<close>

definition byte_of :: "nat \<Rightarrow> byte" where
  "byte_of k = of_nat k"

definition utf8 :: "nat \<Rightarrow> byte list" where
  "utf8 n =
     (if n < 0x80 then [byte_of n]
      else if n < 0x800 then [byte_of (0xC0 + n div 0x40), byte_of (0x80 + n mod 0x40)]
      else if n < 0x10000
      then [byte_of (0xE0 + n div 0x1000), byte_of (0x80 + n div 0x40 mod 0x40),
            byte_of (0x80 + n mod 0x40)]
      else [byte_of (0xF0 + n div 0x40000), byte_of (0x80 + n div 0x1000 mod 0x40),
            byte_of (0x80 + n div 0x40 mod 0x40), byte_of (0x80 + n mod 0x40)])"

definition high_surrogate :: "16 word \<Rightarrow> bool" where
  "high_surrogate c = (0xD800 \<le> c \<and> c \<le> 0xDBFF)"

definition low_surrogate :: "16 word \<Rightarrow> bool" where
  "low_surrogate c = (0xDC00 \<le> c \<and> c \<le> 0xDFFF)"

fun Buffer_from :: "jsstring \<Rightarrow> byte list" where
  "Buffer_from [] = []"
| "Buffer_from [c] =
     (if high_surrogate c \<or> low_surrogate c then utf8 0xFFFD else utf8 (unat c))"
| "Buffer_from (c # d # cs) =
     (if high_surrogate c \<and> low_surrogate d
      then utf8 (0x10000 + (unat c - 0xD800) * 0x400 + (unat d - 0xDC00)) @ Buffer_from cs
      else if high_surrogate c \<or> low_surrogate c then utf8 0xFFFD @ Buffer_from (d # cs)
      else utf8 (unat c) @ Buffer_from (d # cs))"

text \<open>
  The search of lines 313-322 for the first offset above \<open>minimumOffset\<close>: the offsets
  still to visit, the index of the first of them, and \<open>minimumOffset\<close>. It gives the pair
  \<^verbatim>\<open>(offset, lineIndex)\<close>, which stays \<^verbatim>\<open>(minimumOffset, -1)\<close> when no offset is
  above.
\<close>

fun find_offset :: "int list \<Rightarrow> int \<Rightarrow> int \<Rightarrow> int \<times> int" where
  "find_offset [] i minimumOffset = (minimumOffset, - 1)"
| "find_offset (x # xs) i minimumOffset =
     (if x > minimumOffset then (x, i) else find_offset xs (i + 1) minimumOffset)"

text \<open>
  \<^verbatim>\<open>fs.write(fd, buf, 0, buf.length, 0)\<close> on a descriptor opened with \<^verbatim>\<open>'a+'\<close>: the
  kernel appends, whatever the position says, the first \<open>n\<close> bytes of the buffer to the
  file that the descriptor names, and \<open>n\<close> is what the call reports. The file at
  \<^verbatim>\<open>logFileLocation\<close> grows when the descriptor names it, and not otherwise.
\<close>

definition appended :: "world \<Rightarrow> nat option \<Rightarrow> byte list \<Rightarrow> nat \<Rightarrow> world" where
  "appended w f buf n =
     (if names_logfile w f
      then w\<lparr>logfile := map_option (\<lambda>old. old @ take n buf) (logfile w)\<rparr>
      else w)"

text \<open>The state after the counters are updated (lines 280-295), before the triggers.\<close>

definition written :: "logger \<Rightarrow> byte list \<Rightarrow> nat \<Rightarrow> int \<Rightarrow> logger" where
  "written s buf n linesToBeWritten =
     (let s1 = (if n \<noteq> length buf then s\<lparr>pendingWrites := pendingWrites s @ [[newLine]]\<rparr>
                else s);
          s2 = s1\<lparr>newLineOffsets :=
                    push_newlines (take n buf) (size_bytes s1) (newLineOffsets s1)\<rparr>
      in s2\<lparr>bytesWritten := bytesWritten s2 + int n,
             size_bytes := size_bytes s2 + int n,
             lines := lines s2 + linesToBeWritten\<rparr>)"

text \<open>
  The two triggers (lines 297-327). In the first, \<^verbatim>\<open>newLineOffsets[lineIndex]\<close> is read
  whether the array has that many entries or not.
\<close>

definition check_triggers :: "logger \<Rightarrow> world \<Rightarrow> io \<Rightarrow> result \<times> logger \<times> world" where
  "check_triggers s w i =
     (if lines s \<ge> MAX_LOG_LINES
      then
        (let lineIndex = MAX_LOG_LINES div 4;
             offset = at_index (newLineOffsets s) lineIndex
         in priv_truncate s w i (plus_number offset 1) lineIndex)
      else if size_bytes s \<ge> MAX_LOG_FILE_SIZE
      then
        (let minimumOffset = MAX_LOG_FILE_SIZE div 4;
             (offset, lineIndex) = find_offset (newLineOffsets s) 0 minimumOffset
         in priv_truncate s w i (Number (offset + 1)) lineIndex)
      else (Done, s, w))"

definition priv_flush :: "logger \<Rightarrow> world \<Rightarrow> io \<Rightarrow> result \<times> logger \<times> world" where
  "priv_flush s w i =
     (let pending = pendingWrites s;
          s0 = s\<lparr>pendingWrites := []\<rparr>;
          linesToBeWritten = int (length pending);
          buf = Buffer_from (join pending @ [newLine])
      in if \<not> truthy (fd s0) then (Failed FdIsNull, s0, w)
         else
           (let w0 = w\<lparr>write_calls := write_calls w @ [buf]\<rparr>;
                s1 = s0\<lparr>writeCalled := writeCalled s0 + 1\<rparr>
            in case write_result i of
                 Inl writeErr \<Rightarrow>
                   (Failed (Wrapped ''_write() could not write(fd)'' writeErr), s1, w0)
               | Inr ready \<Rightarrow>
                   (let n = min ready (length buf)
                    in check_triggers (written s1 buf n linesToBeWritten)
                         (appended w0 (fd s1) buf n) i)))"

subsection \<open>\<^verbatim>\<open>flush\<close> (lines 223-237)\<close>

text \<open>
  Line 224 awaits the promise in \<^verbatim>\<open>pendingFlush\<close>, if there is one, and throws when
  that promise was rejected. Then there is nothing to do when the queue is empty;
  otherwise one round runs, its promise is put in \<^verbatim>\<open>pendingFlush\<close> and awaited, the field
  is set to \<^verbatim>\<open>null\<close> again, and the error of the round, if any, goes to \<^verbatim>\<open>onError\<close>.
  When the round is rejected, line 230 throws: the promise of \<^verbatim>\<open>flush\<close> is rejected and
  \<^verbatim>\<open>pendingFlush\<close> keeps the rejected promise.
\<close>

definition flush :: "logger \<Rightarrow> world \<Rightarrow> io \<Rightarrow> result \<times> logger \<times> world" where
  "flush s w i =
     (if pendingFlush s = Some Rejected then (Rejected, s, w)
      else if pendingWrites s = [] then (Done, s, w)
      else case priv_flush s w i of
             (Done, s', w') \<Rightarrow> (Done, s'\<lparr>pendingFlush := None\<rparr>, w')
           | (Failed err, s', w') \<Rightarrow>
               (Done, s'\<lparr>pendingFlush := None\<rparr>, w'\<lparr>reported := reported w' @ [err]\<rparr>)
           | (Rejected, s', w') \<Rightarrow> (Rejected, s'\<lparr>pendingFlush := Some Rejected\<rparr>, w'))"

subsection \<open>\<^verbatim>\<open>LogLine\<close> and \<^verbatim>\<open>_write\<close> (lines 29-53 and 188-221)\<close>

text \<open>
  The \<^verbatim>\<open>fields\<close> of a line (\<open>fields_obj\<close> below; \<^verbatim>\<open>v\<close> is \<open>v_version\<close>): the
  caller's object, \<^verbatim>\<open>EMPTY_OBJECT\<close>, or the literal \<^verbatim>\<open>{ isTruncated: true }\<close>.
  \<^verbatim>\<open>truncated\<close> is \<^verbatim>\<open>undefined\<close> (\<open>None\<close>) unless given.
\<close>

datatype 'f fields = Info 'f | EMPTY_OBJECT | IsTruncatedTrue

record 'f LogLine =
  name :: jsstring
  hostname :: jsstring
  pid :: nat
  level :: jsstring
  msg :: jsstring
  time :: jsstring
  v_version :: nat
  fields_obj :: "'f fields"
  truncated :: "jsstring option"

text \<open>
  What the process and the language provide: the host name, the process id,
  \<^verbatim>\<open>new Date(t).toISOString()\<close> and \<^verbatim>\<open>JSON.stringify\<close>, both of which can throw
  (\<open>None\<close>): the first on an invalid time, the second on a circular structure.
\<close>

record ('f, 't) platform =
  os_hostname :: jsstring
  process_pid :: nat
  toISOString :: "'t \<Rightarrow> jsstring option"
  JSON_stringify :: "'f LogLine \<Rightarrow> jsstring option"

definition new_LogLine ::
  "('f, 't) platform \<Rightarrow> jsstring \<Rightarrow> jsstring \<Rightarrow> jsstring \<Rightarrow> 'f fields \<Rightarrow> 't \<Rightarrow>
   jsstring option \<Rightarrow> 'f LogLine option" where
  "new_LogLine p product lvl m info t trunc =
     (case toISOString p t of
        None \<Rightarrow> None
      | Some isoString \<Rightarrow>
          Some \<lparr>name = product, hostname = os_hostname p, pid = process_pid p, level = lvl,
                msg = m, time = isoString, v_version = 1, fields_obj = info, truncated = trunc\<rparr>)"

text \<open>
  The string that the \<^verbatim>\<open>try\<close> block of \<^verbatim>\<open>_write\<close> computes before it pushes it
  (lines 193-205); \<open>None\<close> when the block throws. \<^verbatim>\<open>info || EMPTY_OBJECT\<close>: a falsy
  \<^verbatim>\<open>info\<close> is \<open>None\<close>.
\<close>

definition encoded ::
  "('f, 't) platform \<Rightarrow> jsstring \<Rightarrow> jsstring \<Rightarrow> jsstring \<Rightarrow> 'f option \<Rightarrow> 't \<Rightarrow>
   jsstring option" where
  "encoded p product lvl m info t =
     (case new_LogLine p product lvl m
             (case info of None \<Rightarrow> EMPTY_OBJECT | Some f \<Rightarrow> Info f) t None of
        None \<Rightarrow> None
      | Some line \<Rightarrow>
         (case JSON_stringify p line of
            None \<Rightarrow> None
          | Some str \<Rightarrow>
              if length str > MAX_LOG_LINE_SIZE
              then
                (let truncLevel = (if lvl = js ''info'' then js ''warn'' else lvl)
                 in case new_LogLine p product truncLevel m IsTruncatedTrue t
                           (Some (take (MAX_LOG_LINE_SIZE - 3) str @ js ''...'')) of
                      None \<Rightarrow> None
                    | Some line' \<Rightarrow> JSON_stringify p line')
              else Some str))"

definition priv_write ::
  "('f, 't) platform \<Rightarrow> logger \<Rightarrow> world \<Rightarrow> io \<Rightarrow> jsstring \<Rightarrow> jsstring \<Rightarrow> 'f option \<Rightarrow> 't \<Rightarrow>
   result \<times> logger \<times> world" where
  "priv_write p s w i lvl m info t =
     (case encoded p (productName s) lvl m info t of
        Some str \<Rightarrow> flush (s\<lparr>pendingWrites := pendingWrites s @ [str]\<rparr>) w i
      | None \<Rightarrow>
          (Done, s,
           w\<lparr>reported := reported w @
                [WrappedException ''_write() threw an unexpected exception'']\<rparr>))"

subsection \<open>\<^verbatim>\<open>MainLogger._log\<close> (part_001, lines 75-102; the same in lines 934-959)\<close>

text \<open>
  The level methods \<^verbatim>\<open>info\<close>, \<^verbatim>\<open>warn\<close> and \<^verbatim>\<open>error\<close> and \<^verbatim>\<open>logIPC\<close> all call
  \<^verbatim>\<open>_log\<close>. Its arguments are any JavaScript values: \<^verbatim>\<open>undefined\<close>, a string, an
  object, or another value, of which only the truthiness matters.
\<close>

datatype 'f jsval = JUndefined | JString jsstring | JObject 'f | JOther bool

fun truthy_val :: "'f jsval \<Rightarrow> bool" where
  "truthy_val JUndefined = False"
| "truthy_val (JString str) = (str \<noteq> [])"
| "truthy_val (JObject f) = True"
| "truthy_val (JOther b) = b"

datatype exception = MustCallOpenFirst | MsgIsMandatory | InfoMustBeObject

datatype 'a completion = Threw exception | Returned 'a

text \<open>
  \<open>opened\<close> is \<^verbatim>\<open>this.fsLogger.hasOpened\<close>, and \<open>writeLog\<close> is the method of the file
  logger that the last line calls: \<^verbatim>\<open>writeLog\<close> of the \<^verbatim>\<open>RotatingFileLogger\<close> in
  part_001, \<^verbatim>\<open>_write\<close> of the \<^verbatim>\<open>AppendOnlyFSLogger\<close> in line 958. \<open>errorsToObjects\<close> is
  the loop that replaces every \<^verbatim>\<open>Error\<close> among the values of \<^verbatim>\<open>info\<close> by a plain
  object. A falsy \<^verbatim>\<open>info\<close> is handed on as \<open>None\<close>. Writing to the console is left out.
\<close>

definition priv_log ::
  "bool \<Rightarrow> ('f \<Rightarrow> 'f) \<Rightarrow> (jsstring \<Rightarrow> jsstring \<Rightarrow> 'f option \<Rightarrow> 't \<Rightarrow> 'r) \<Rightarrow> jsstring \<Rightarrow>
   'f jsval \<Rightarrow> 'f jsval \<Rightarrow> 't \<Rightarrow> 'r completion" where
  "priv_log opened errorsToObjects writeLog lvl m info t =
     (if \<not> opened then Threw MustCallOpenFirst
      else case m of
        JString str \<Rightarrow>
          if str = [] then Threw MsgIsMandatory
          else (case info of
                  JObject f \<Rightarrow> Returned (writeLog lvl str (Some (errorsToObjects f)) t)
                | other \<Rightarrow>
                    if truthy_val other then Threw InfoMustBeObject
                    else Returned (writeLog lvl str None t))
      | other \<Rightarrow> Threw MsgIsMandatory)"

subsection \<open>Notions the statements below use\<close>

text \<open>The positions of the newline bytes of a buffer, in increasing order.\<close>

definition newline_positions :: "byte list \<Rightarrow> int list" where
  "newline_positions buf =
     map int (filter (\<lambda>k. buf ! k = newLineByte) [0..<length buf])"

text \<open>
  The lines of a file: the byte sequences that a newline byte ends, oldest first. Bytes
  after the last newline are an unfinished line and not listed. The first argument is the
  line being read, last byte first.
\<close>

fun lines_from :: "byte list \<Rightarrow> byte list \<Rightarrow> byte list list" where
  "lines_from cur [] = []"
| "lines_from cur (b # bs) =
     (if b = newLineByte then rev cur # lines_from [] bs else lines_from (b # cur) bs)"

definition file_lines :: "world \<Rightarrow> byte list list" where
  "file_lines w = (case logfile w of None \<Rightarrow> [] | Some buf \<Rightarrow> lines_from [] buf)"

text \<open>
  The logger describes the file: \<^verbatim>\<open>size\<close> is its length and \<^verbatim>\<open>newLineOffsets\<close> are
  the positions of its newline bytes. The logger counts right: \<^verbatim>\<open>lines\<close> is the number
  of offsets.
\<close>

definition tracks :: "logger \<Rightarrow> world \<Rightarrow> bool" where
  "tracks s w =
     (case logfile w of
        None \<Rightarrow> False
      | Some buf \<Rightarrow>
          size_bytes s = int (length buf) \<and> newLineOffsets s = newline_positions buf)"

definition counted :: "logger \<Rightarrow> bool" where
  "counted s = (lines s = int (length (newLineOffsets s)))"

text \<open>
  The buffer of a round, the number of bytes its write transfers, and the logger and the
  world after the write and the update of the counters, before the triggers are checked.
\<close>

definition round_buffer :: "logger \<Rightarrow> byte list" where
  "round_buffer s = Buffer_from (join (pendingWrites s) @ [newLine])"

definition transferred :: "logger \<Rightarrow> io \<Rightarrow> nat" where
  "transferred s i =
     (case write_result i of
        Inl writeErr \<Rightarrow> 0
      | Inr ready \<Rightarrow> min ready (length (round_buffer s)))"

definition after_write :: "logger \<Rightarrow> io \<Rightarrow> logger" where
  "after_write s i =
     written (s\<lparr>pendingWrites := [], writeCalled := writeCalled s + 1\<rparr>)
       (round_buffer s) (transferred s i) (int (length (pendingWrites s)))"

definition world_after_write :: "logger \<Rightarrow> world \<Rightarrow> io \<Rightarrow> world" where
  "world_after_write s w i =
     appended (w\<lparr>write_calls := write_calls w @ [round_buffer s]\<rparr>) (fd s)
       (round_buffer s) (transferred s i)"

text \<open>
  The cause with which the descriptor-open step of \<^verbatim>\<open>open\<close> failed: the step is reached
  when the logger holds no descriptor, the directory could be made, and the old file could
  be read or is missing.
\<close>

definition descriptor_open_failure :: "logger \<Rightarrow> world \<Rightarrow> io \<Rightarrow> cause option" where
  "descriptor_open_failure s w i =
     (if truthy (fd s) \<or> mkdir_result i \<noteq> None then None
      else case readFile w i of
             Inl readErr \<Rightarrow>
               if code readErr = ''ENOENT''
               then (case open_result i of Inl openErr \<Rightarrow> Some openErr | Inr newFd \<Rightarrow> None)
               else None
           | Inr buf \<Rightarrow> (case open_result i of Inl openErr \<Rightarrow> Some openErr | Inr newFd \<Rightarrow> None))"

text \<open>
  For the examples: every system call succeeds, \<^verbatim>\<open>fs.open\<close> gives the descriptor
  \<open>newFd\<close> and \<^verbatim>\<open>fs.write\<close> takes up to \<open>ready\<close> bytes. And a world with a log file of
  the given content (or without one), before \<^verbatim>\<open>open\<close> and before any write or report.
\<close>

definition all_succeed :: "nat \<Rightarrow> nat \<Rightarrow> io" where
  "all_succeed newFd ready =
     \<lparr>mkdir_result = None, readFile_fault = None, open_result = Inr newFd,
      write_result = Inr ready, pipeline_result = None, rename_result = None,
      close_result = None\<rparr>"

definition world_with :: "byte list option \<Rightarrow> world" where
  "world_with content = \<lparr>logfile = content, path_fds = {}, write_calls = [], reported = []\<rparr>"

text \<open>
  For the examples: the logger as \<^verbatim>\<open>open\<close> leaves it on a file of the given content
  (descriptor 3), with the given lines queued, and the world as \<^verbatim>\<open>open\<close> leaves it then.
\<close>

definition opened_on :: "byte list \<Rightarrow> jsstring list \<Rightarrow> logger" where
  "opened_on buf pending =
     \<lparr>productName = js ''app'', fd = Some 3,
      lines = int (length (newline_positions buf)), size_bytes = int (length buf),
      bytesWritten = 0, writeCalled = 0, newLineOffsets = newline_positions buf,
      pendingFlush = None, pendingWrites = pending, hasOpened = True\<rparr>"

definition world_opened :: "byte list \<Rightarrow> world" where
  "world_opened buf = \<lparr>logfile = Some buf, path_fds = {3}, write_calls = [], reported = []\<rparr>"

text \<open>
  For the examples: a platform whose \<^verbatim>\<open>fields\<close> objects are Booleans, \<open>True\<close> standing
  for an object that holds a reference to itself, and whose serialization of a line is its
  message followed by its \<^verbatim>\<open>truncated\<close> text, if it has one.
\<close>

definition example_platform :: "(bool, nat) platform" where
  "example_platform =
     \<lparr>os_hostname = js ''host'', process_pid = 42,
      toISOString = (\<lambda>t. Some (js ''1970-01-01T00:00:00.000Z'')),
      JSON_stringify =
        (\<lambda>line. if fields_obj line = Info True then None
                else Some (msg line @ (case truncated line of None \<Rightarrow> [] | Some text \<Rightarrow> text)))\<rparr>"

section \<open>Lemmas\<close>

subsection \<open>The newline scan\<close>

lemma push_newlines_acc: "push_newlines bs p acc = acc @ push_newlines bs p []"
proof (induction bs arbitrary: p acc)
  case Nil
  show ?case by simp
next
  case (Cons b bs)
  show ?case
    using Cons.IH [of "p + 1" "acc @ [p]"] Cons.IH [of "p + 1" "[p]"] Cons.IH [of "p + 1" acc]
    by simp
qed

lemma push_newlines_Cons:
  "push_newlines (b # bs) p [] =
     (if b = newLineByte then p # push_newlines bs (p + 1) [] else push_newlines bs (p + 1) [])"
  using push_newlines_acc [of bs "p + 1" "[p]"] by simp

lemma push_newlines_append:
  "push_newlines (a @ b) p [] = push_newlines a p [] @ push_newlines b (p + int (length a)) []"
proof (induction a arbitrary: p)
  case Nil
  show ?case by simp
next
  case (Cons x a)
  show ?case
    using Cons.IH [of "p + 1"] by (simp add: push_newlines_Cons add.assoc del: push_newlines.simps(2))
qed

lemma push_newlines_shift:
  "map (\<lambda>x. x - q) (push_newlines bs p []) = push_newlines bs (p - q) []"
proof (induction bs arbitrary: p)
  case Nil
  show ?case by simp
next
  case (Cons b bs)
  have "p - q + 1 = p + 1 - q" by simp
  then have "push_newlines bs (p - q + 1) [] = push_newlines bs (p + 1 - q) []" by (rule arg_cong)
  then show ?case
    using Cons.IH [of "p + 1"] by (simp add: push_newlines_Cons del: push_newlines.simps(2))
qed

lemma push_newlines_bounds:
  "x \<in> set (push_newlines bs p []) \<Longrightarrow>
     p \<le> x \<and> x < p + int (length bs) \<and> bs ! nat (x - p) = newLineByte"
proof (induction bs arbitrary: p)
  case Nil
  then show ?case by simp
next
  case (Cons b bs)
  show ?case
  proof (cases "b = newLineByte \<and> x = p")
    case True
    then show ?thesis by simp
  next
    case False
    with Cons.prems have "x \<in> set (push_newlines bs (p + 1) [])"
      by (auto simp add: push_newlines_Cons simp del: push_newlines.simps(2) split: if_splits)
    from Cons.IH [OF this]
    have b: "p + 1 \<le> x" "x < p + 1 + int (length bs)" "bs ! nat (x - (p + 1)) = newLineByte"
      by simp_all
    from b(1) have "nat (x - p) = Suc (nat (x - (p + 1)))" by simp
    with b show ?thesis by simp
  qed
qed

lemma push_newlines_sorted: "sorted_wrt (<) (push_newlines bs p [])"
proof (induction bs arbitrary: p)
  case Nil
  show ?case by simp
next
  case (Cons b bs)
  have "\<forall>x\<in>set (push_newlines bs (p + 1) []). p < x"
    using push_newlines_bounds [of _ bs "p + 1"] by force
  then show ?case
    using Cons.IH [of "p + 1"] by (simp add: push_newlines_Cons del: push_newlines.simps(2))
qed

lemma push_newlines_drop:
  "k < length (push_newlines bs p []) \<Longrightarrow>
   push_newlines (drop (nat (push_newlines bs p [] ! k + 1 - p)) bs)
       (push_newlines bs p [] ! k + 1) []
     = drop (Suc k) (push_newlines bs p [])"
proof (induction bs arbitrary: p k)
  case Nil
  then show ?case by simp
next
  case (Cons b bs)
  let ?rest = "push_newlines bs (p + 1) []"
  show ?case
  proof (cases "b = newLineByte")
    case True
    then have eq: "push_newlines (b # bs) p [] = p # ?rest"
      by (simp add: push_newlines_Cons del: push_newlines.simps(2))
    show ?thesis
    proof (cases k)
      case 0
      then show ?thesis unfolding eq by simp
    next
      case (Suc j)
      with Cons.prems eq have j: "j < length ?rest" by simp
      then have "?rest ! j \<in> set ?rest" by simp
      then have "p + 1 \<le> ?rest ! j" using push_newlines_bounds by blast
      then have "nat (?rest ! j + 1 - p) = Suc (nat (?rest ! j + 1 - (p + 1)))" by simp
      then show ?thesis
        unfolding eq using Cons.IH [OF j] Suc by simp
    qed
  next
    case False
    then have eq: "push_newlines (b # bs) p [] = ?rest"
      by (simp add: push_newlines_Cons del: push_newlines.simps(2))
    from Cons.prems eq have k: "k < length ?rest" by simp
    then have "?rest ! k \<in> set ?rest" by simp
    then have "p + 1 \<le> ?rest ! k" using push_newlines_bounds by blast
    then have "nat (?rest ! k + 1 - p) = Suc (nat (?rest ! k + 1 - (p + 1)))" by simp
    then show ?thesis
      unfolding eq using Cons.IH [OF k] by simp
  qed
qed


lemma push_newlines_positions: "push_newlines buf 0 [] = newline_positions buf"
proof (induction buf rule: rev_induct)
  case Nil
  show ?case by (simp add: newline_positions_def)
next
  case (snoc b buf)
  have "filter (\<lambda>k. (buf @ [b]) ! k = newLineByte) [0..<length buf]
      = filter (\<lambda>k. buf ! k = newLineByte) [0..<length buf]"
    by (rule filter_cong) (simp_all add: nth_append)
  then show ?case
    using snoc.IH
    by (simp add: push_newlines_append newline_positions_def push_newlines_Cons
        del: push_newlines.simps(2))
qed

lemma length_lines_from: "length (lines_from cur bs) = length (push_newlines bs p [])"
proof (induction bs arbitrary: cur p)
  case Nil
  show ?case by simp
next
  case (Cons b bs)
  show ?case
    using Cons.IH [of "[]" "p + 1"] Cons.IH [of "b # cur" "p + 1"]
    by (simp add: push_newlines_Cons del: push_newlines.simps(2))
qed

subsection \<open>The UTF-8 encoding and the newline\<close>

lemma byte_of_eq_newLineByte:
  assumes "k < 256"
  shows "(byte_of k = newLineByte) = (k = 10)"
proof
  assume "byte_of k = newLineByte"
  then have "unat (of_nat k :: byte) = unat (10 :: byte)"
    by (simp add: newLineByte_def byte_of_def)
  then show "k = 10" using assms by (simp add: unat_of_nat)
next
  assume "k = 10"
  then show "byte_of k = newLineByte" by (simp add: newLineByte_def byte_of_def)
qed

lemma newLineByte_eq_byte_of: "k < 256 \<Longrightarrow> (newLineByte = byte_of k) = (k = 10)"
  using byte_of_eq_newLineByte [of k] by auto

lemma utf8_newline:
  assumes "n < 0x110000"
  shows "(newLineByte \<in> set (utf8 n)) = (n = 10)"
proof -
  have a: "n div 0x40 mod 0x40 < 64" "n mod 0x40 < 64" "n div 0x1000 mod 0x40 < 64"
    by simp_all
  have b: "n < 0x800 \<Longrightarrow> n div 0x40 < 32" "n < 0x10000 \<Longrightarrow> n div 0x1000 < 16"
    "n div 0x40000 < 5"
    using assms by simp_all
  show ?thesis
    unfolding utf8_def using a b by (auto simp add: newLineByte_eq_byte_of)
qed

lemma utf8_10: "utf8 10 = [newLineByte]"
  by (simp add: utf8_def newLineByte_def byte_of_def)

lemma unat_newLine: "unat newLine = 10"
  by (simp add: newLine_def)

lemma unat_eq_10: "(unat (c :: 16 word) = 10) = (c = newLine)"
  by (metis unat_newLine word_unat_eq_iff)

lemma newLine_not_surrogate: "\<not> high_surrogate newLine" "\<not> low_surrogate newLine"
  by (simp_all add: high_surrogate_def low_surrogate_def newLine_def)

lemma unat_code_unit: "unat (c :: 16 word) < 65536"
  using unsigned_less [of c, where 'a = nat] by simp

lemma surrogate_pair_code_point:
  "high_surrogate c \<Longrightarrow> low_surrogate d \<Longrightarrow>
     0x10000 + (unat c - 0xD800) * 0x400 + (unat d - 0xDC00) < 0x110000 \<and>
     0x10000 + (unat c - 0xD800) * 0x400 + (unat d - 0xDC00) \<noteq> 10"
  unfolding high_surrogate_def low_surrogate_def
  by (auto simp add: word_le_nat_alt)

lemma Buffer_from_no_newline:
  "newLine \<notin> set str \<Longrightarrow> newLineByte \<notin> set (Buffer_from str)"
proof (induction str rule: Buffer_from.induct)
  case 1
  then show ?case by simp
next
  case (2 c)
  then show ?case using unat_code_unit [of c] by (simp add: utf8_newline unat_eq_10)
next
  case (3 c d cs)
  then show ?case using unat_code_unit [of c] surrogate_pair_code_point [of c d]
    by (auto simp add: utf8_newline unat_eq_10)
qed

lemma Buffer_from_newline:
  "Buffer_from (a @ newLine # b) = Buffer_from a @ newLineByte # Buffer_from b"
proof (induction a rule: Buffer_from.induct)
  case 1
  show ?case
    by (cases b) (simp_all add: newLine_not_surrogate unat_newLine utf8_10)
next
  case (2 c)
  show ?case
    by (cases b) (simp_all add: newLine_not_surrogate unat_newLine utf8_10)
next
  case (3 c d cs)
  then show ?case by simp
qed

subsection \<open>\<^verbatim>\<open>open\<close>\<close>

lemma length_push_newlines:
  "length (push_newlines bs p []) = length (filter (\<lambda>b. b = newLineByte) bs)"
proof (induction bs arbitrary: p)
  case Nil
  show ?case by simp
next
  case (Cons b bs)
  show ?case
    using Cons.IH [of "p + 1"] by (simp add: push_newlines_Cons del: push_newlines.simps(2))
qed

lemma open_descriptor_Done:
  "open_descriptor s w i = (Done, s', w') \<Longrightarrow>
     (\<exists>newFd. open_result i = Inr newFd \<and> s' = s\<lparr>hasOpened := True, fd := Some newFd\<rparr> \<and>
        path_fds w' = insert newFd (path_fds w)) \<and>
     logfile w' = Some (case logfile w of None \<Rightarrow> [] | Some old \<Rightarrow> old) \<and>
     write_calls w' = write_calls w \<and> reported w' = reported w"
  by (auto simp add: open_descriptor_def split: sum.splits)

lemma open_descriptor_Failed:
  "open_descriptor s w i = (Failed e, s', w') \<Longrightarrow>
     \<exists>c. open_result i = Inl c \<and>
       e = OpenFail ((new_OpenFailError ''Could not open log file'' c)
             \<lparr>shouldBail := (code c = ''EACCES'')\<rparr>)"
  by (auto simp add: open_descriptor_def OpenFailError_wrap_def split: sum.splits)

lemma open_logger_absent:
  assumes "logfile w = None" and "\<not> truthy (fd s)" and "mkdir_result i = None"
  shows "open_logger s w i = open_descriptor s w i"
  using assms by (simp add: open_logger_def readFile_def ENOENT_def)

lemma open_logger_Done:
  "open_logger s w i = (Done, s', w') \<Longrightarrow> \<not> truthy (fd s) \<and> mkdir_result i = None"
  by (auto simp add: open_logger_def split: if_splits option.splits)

lemma tracks_after_open:
  assumes "readFile_fault i = None"
    and "open_logger s w i = (Done, s', w')"
    and "logfile w = None \<longrightarrow> size_bytes s = 0 \<and> newLineOffsets s = [] \<and> lines s = 0"
  shows "tracks s' w' \<and> names_logfile w' (fd s') \<and> counted s'"
proof (cases "logfile w")
  case None
  with assms(2) open_logger_Done [OF assms(2)] have "open_descriptor s w i = (Done, s', w')"
    by (simp add: open_logger_absent)
  from open_descriptor_Done [OF this] None assms(3) show ?thesis
    by (auto simp add: tracks_def counted_def names_logfile_def newline_positions_def)
next
  case (Some buf)
  let ?s1 = "s\<lparr>size_bytes := int (length buf),
      newLineOffsets := push_newlines buf 0 [],
      lines := int (length (push_newlines buf 0 []))\<rparr>"
  from Some assms have "open_descriptor ?s1 w i = (Done, s', w')"
    by (simp add: open_logger_def readFile_def Let_def split: if_splits option.splits)
  from open_descriptor_Done [OF this] Some show ?thesis
    by (auto simp add: tracks_def counted_def names_logfile_def push_newlines_positions)
qed

subsection \<open>One round of \<^verbatim>\<open>_flush\<close>\<close>

lemma priv_flush_round:
  "truthy (fd s) \<Longrightarrow> write_result i = Inr ready \<Longrightarrow>
     priv_flush s w i = check_triggers (after_write s i) (world_after_write s w i) i"
  by (simp add: priv_flush_def after_write_def world_after_write_def round_buffer_def
      transferred_def Let_def)

lemma priv_flush_no_descriptor:
  "\<not> truthy (fd s) \<Longrightarrow> priv_flush s w i = (Failed FdIsNull, s\<lparr>pendingWrites := []\<rparr>, w)"
  by (simp add: priv_flush_def Let_def)

lemma priv_flush_write_error:
  "truthy (fd s) \<Longrightarrow> write_result i = Inl c \<Longrightarrow>
     priv_flush s w i
       = (Failed (Wrapped ''_write() could not write(fd)'' c),
          s\<lparr>pendingWrites := [], writeCalled := writeCalled s + 1\<rparr>,
          w\<lparr>write_calls := write_calls w @ [round_buffer s]\<rparr>)"
  by (simp add: priv_flush_def round_buffer_def Let_def)

lemma priv_flush_Done:
  "priv_flush s w i = (Done, s', w') \<Longrightarrow> truthy (fd s) \<and> (\<exists>ready. write_result i = Inr ready)"
  by (auto simp add: priv_flush_def Let_def split: if_splits sum.splits)

lemma after_write_offsets:
  "newLineOffsets (after_write s i) =
     newLineOffsets s @
       push_newlines (take (transferred s i) (round_buffer s)) (size_bytes s) []"
proof -
  have "newLineOffsets (after_write s i) =
      push_newlines (take (transferred s i) (round_buffer s)) (size_bytes s) (newLineOffsets s)"
    by (simp add: after_write_def written_def Let_def)
  also have "\<dots> = newLineOffsets s @
      push_newlines (take (transferred s i) (round_buffer s)) (size_bytes s) []"
    by (rule push_newlines_acc)
  finally show ?thesis .
qed

lemma after_write_fields:
  "lines (after_write s i) = lines s + int (length (pendingWrites s))"
  "size_bytes (after_write s i) = size_bytes s + int (transferred s i)"
  "bytesWritten (after_write s i) = bytesWritten s + int (transferred s i)"
  "writeCalled (after_write s i) = writeCalled s + 1"
  "fd (after_write s i) = fd s"
  "hasOpened (after_write s i) = hasOpened s"
  "pendingFlush (after_write s i) = pendingFlush s"
  "productName (after_write s i) = productName s"
  "pendingWrites (after_write s i) =
     (if transferred s i \<noteq> length (round_buffer s) then [[newLine]] else [])"
  by (simp_all add: after_write_def written_def Let_def)

lemma world_after_write_fields:
  "logfile (world_after_write s w i) =
     (if names_logfile w (fd s)
      then map_option (\<lambda>old. old @ take (transferred s i) (round_buffer s)) (logfile w)
      else logfile w)"
  "path_fds (world_after_write s w i) = path_fds w"
  "write_calls (world_after_write s w i) = write_calls w @ [round_buffer s]"
  "reported (world_after_write s w i) = reported w"
  by (simp_all add: world_after_write_def appended_def names_logfile_def split: option.splits)

lemma names_logfile_after_write:
  "names_logfile (world_after_write s w i) f = names_logfile w f"
  by (simp add: names_logfile_def world_after_write_fields split: option.splits)

lemma transferred_le: "transferred s i \<le> length (round_buffer s)"
  by (simp add: transferred_def split: sum.splits)

lemma tracks_after_write:
  assumes "tracks s w" and "names_logfile w (fd s)"
  shows "tracks (after_write s i) (world_after_write s w i)"
proof -
  from assms(1) obtain buf where buf: "logfile w = Some buf" "size_bytes s = int (length buf)"
    "newLineOffsets s = push_newlines buf 0 []"
    by (auto simp add: tracks_def push_newlines_positions split: option.splits)
  let ?t = "take (transferred s i) (round_buffer s)"
  have len: "length ?t = transferred s i" using transferred_le [of s i] by simp
  have "newLineOffsets (after_write s i) = push_newlines (buf @ ?t) 0 []"
    using buf by (simp add: after_write_offsets push_newlines_append)
  moreover have "size_bytes (after_write s i) = int (length (buf @ ?t))"
    using buf len by (simp add: after_write_fields)
  moreover have "logfile (world_after_write s w i) = Some (buf @ ?t)"
    using buf assms(2) by (simp add: world_after_write_fields)
  ultimately show ?thesis
    by (simp add: tracks_def push_newlines_positions)
qed

lemma open_logger_twice:
  "truthy (fd s) \<Longrightarrow> open_logger s w i = (Failed CannotOpenTwice, s, w)"
  by (simp add: open_logger_def)

text \<open>
  A truncation that completes was called with a number and a line index other than -1;
  only the new descriptor names the new file.
\<close>

lemma priv_truncate_Done:
  assumes "priv_truncate s w i position lineIndex = (Done, s', w')" and "truthy (fd s)"
  shows "\<exists>start newFd. position = Number start \<and>
     lineIndex \<noteq> - 1 \<and> 0 \<le> start \<and> logfile w \<noteq> None \<and> open_result i = Inr newFd \<and>
     s' = s\<lparr>lines := lines s - lineIndex - 1, size_bytes := size_bytes s - start,
            newLineOffsets := map (\<lambda>offset. offset - start)
                (slice_from (newLineOffsets s) (lineIndex + 1)),
            fd := Some newFd\<rparr> \<and>
     w' = w\<lparr>logfile := map_option (drop (nat start)) (logfile w), path_fds := {newFd}\<rparr>"
proof (cases position)
  case NaN
  with assms(1) show ?thesis by (simp add: priv_truncate_def)
next
  case (Number start)
  show ?thesis
  proof (cases "lineIndex = - 1")
    case True
    have "truthy (fd (s\<lparr>lines := 0, size_bytes := 0, newLineOffsets := []\<rparr>))"
      using assms(2) by simp
    then have "\<And>w1. open_logger (s\<lparr>lines := 0, size_bytes := 0, newLineOffsets := []\<rparr>) w1 i
        = (Failed CannotOpenTwice, s\<lparr>lines := 0, size_bytes := 0, newLineOffsets := []\<rparr>, w1)"
      by (rule open_logger_twice)
    with assms(1) True Number show ?thesis
      by (simp add: priv_truncate_def Let_def split: if_splits option.splits)
  next
    case False
    with assms(1) Number show ?thesis
      by (auto simp add: priv_truncate_def Let_def split: if_splits option.splits sum.splits)
  qed
qed

lemma find_offset_result:
  "find_offset xs i0 m = (x, li) \<Longrightarrow> 0 \<le> i0 \<Longrightarrow>
     (li = - 1 \<and> x = m \<and> (\<forall>y\<in>set xs. y \<le> m)) \<or>
     (\<exists>k<length xs. li = i0 + int k \<and> x = xs ! k \<and> m < x \<and> (\<forall>j<k. xs ! j \<le> m))"
proof (induction xs arbitrary: i0)
  case Nil
  then show ?case by simp
next
  case (Cons y ys)
  show ?case
  proof (cases "y > m")
    case True
    with Cons.prems have "li = i0" "x = y" by simp_all
    with True have "0 < length (y # ys) \<and> li = i0 + int 0 \<and> x = (y # ys) ! 0 \<and> m < x \<and>
      (\<forall>j<0. (y # ys) ! j \<le> m)"
      by simp
    then show ?thesis by blast
  next
    case False
    with Cons.prems have "find_offset ys (i0 + 1) m = (x, li)" by simp
    from Cons.IH [OF this] Cons.prems(2)
    consider "li = - 1 \<and> x = m \<and> (\<forall>y\<in>set ys. y \<le> m)"
      | k where "k < length ys" "li = i0 + 1 + int k" "x = ys ! k" "m < x" "\<forall>j<k. ys ! j \<le> m"
      by auto
    then show ?thesis
    proof cases
      case 1
      with False show ?thesis by auto
    next
      case 2
      have "\<forall>j<Suc k. (y # ys) ! j \<le> m"
        using 2(5) False by (auto simp add: nth_Cons split: nat.splits)
      with 2 have "Suc k < length (y # ys) \<and> li = i0 + int (Suc k) \<and> x = (y # ys) ! Suc k \<and>
        m < x \<and> (\<forall>j<Suc k. (y # ys) ! j \<le> m)"
        by simp
      then show ?thesis by blast
    qed
  qed
qed

lemma tracks_positions:
  assumes "tracks s w" and "k < length (newLineOffsets s)"
  shows "\<exists>buf. logfile w = Some buf \<and> size_bytes s = int (length buf) \<and>
     newLineOffsets s = push_newlines buf 0 [] \<and>
     0 \<le> newLineOffsets s ! k \<and> newLineOffsets s ! k < int (length buf) \<and>
     buf ! nat (newLineOffsets s ! k) = newLineByte"
proof -
  from assms(1) obtain buf where buf: "logfile w = Some buf" "size_bytes s = int (length buf)"
    "newLineOffsets s = push_newlines buf 0 []"
    by (auto simp add: tracks_def push_newlines_positions split: option.splits)
  from assms(2) have "newLineOffsets s ! k \<in> set (push_newlines buf 0 [])"
    using buf(3) by (metis nth_mem)
  from push_newlines_bounds [OF this] buf show ?thesis by simp
qed

text \<open>The state and the world after a cut behind the newline with index k.\<close>

lemma tracks_after_cut:
  assumes "tracks s w" and "k < length (newLineOffsets s)"
    and "position = newLineOffsets s ! k + 1"
    and "logfile w' = map_option (drop (nat position)) (logfile w)"
  shows "tracks
      (s\<lparr>lines := l, size_bytes := size_bytes s - position,
         newLineOffsets := map (\<lambda>offset. offset - position) (drop (Suc k) (newLineOffsets s)),
         fd := f\<rparr>)
      w'"
proof -
  from tracks_positions [OF assms(1,2)] obtain buf where
    buf: "logfile w = Some buf" "size_bytes s = int (length buf)"
      "newLineOffsets s = push_newlines buf 0 []"
      "0 \<le> newLineOffsets s ! k" "newLineOffsets s ! k < int (length buf)"
    by blast
  have k: "k < length (push_newlines buf 0 [])" using assms(2) buf(3) by simp
  have pos: "position = push_newlines buf 0 [] ! k + 1" using assms(3) buf(3) by simp
  have "push_newlines (drop (nat (push_newlines buf 0 [] ! k + 1 - 0)) buf)
      (push_newlines buf 0 [] ! k + 1) [] = drop (Suc k) (push_newlines buf 0 [])"
    by (rule push_newlines_drop [OF k])
  then have "push_newlines (drop (nat position) buf) position [] = drop (Suc k) (newLineOffsets s)"
    using pos buf(3) by simp
  then have "map (\<lambda>offset. offset - position) (drop (Suc k) (newLineOffsets s))
      = push_newlines (drop (nat position) buf) (position - position) []"
    using push_newlines_shift [of position "drop (nat position) buf" position] by simp
  then have offs: "map (\<lambda>offset. offset - position) (drop (Suc k) (newLineOffsets s))
      = newline_positions (drop (nat position) buf)"
    by (simp add: push_newlines_positions)
  have "size_bytes s - position = int (length (drop (nat position) buf))"
    using buf(2,4,5) assms(3) by simp
  with offs buf(1) assms(4) show ?thesis by (simp add: tracks_def)
qed


lemma file_lines_count:
  "tracks s w \<Longrightarrow> length (file_lines w) = length (newLineOffsets s)"
  using length_lines_from [of "[]" _ 0]
  by (auto simp add: tracks_def file_lines_def push_newlines_positions [symmetric]
      split: option.splits)

lemma slice_from_drop: "0 \<le> k \<Longrightarrow> slice_from xs k = drop (nat k) xs"
  by (simp add: slice_from_def)

lemma at_index_nat: "at_index xs (int k) = (if k < length xs then Some (xs ! k) else None)"
  by (simp add: at_index_def)

lemma check_triggers_lines:
  assumes "MAX_LOG_LINES \<le> lines s"
  shows "check_triggers s w i =
     priv_truncate s w i (plus_number (at_index (newLineOffsets s) 1024) 1) 1024"
  using assms by (simp add: check_triggers_def MAX_LOG_LINES_def Let_def)

lemma check_triggers_idle:
  assumes "lines s < MAX_LOG_LINES" and "size_bytes s < MAX_LOG_FILE_SIZE"
  shows "check_triggers s w i = (Done, s, w)"
  using assms by (simp add: check_triggers_def)

text \<open>What a round that completes with a cut looks like.\<close>

lemma check_triggers_Done:
  assumes "check_triggers s w i = (Done, s', w')" and "truthy (fd s)"
  shows "(lines s < MAX_LOG_LINES \<and> size_bytes s < MAX_LOG_FILE_SIZE \<and> s' = s \<and> w' = w) \<or>
     (\<exists>k newFd. k < length (newLineOffsets s) \<and>
        (if MAX_LOG_LINES \<le> lines s then k = 1024
         else MAX_LOG_FILE_SIZE \<le> size_bytes s \<and> 8388608 < newLineOffsets s ! k \<and>
              (\<forall>j<k. newLineOffsets s ! j \<le> 8388608)) \<and>
        open_result i = Inr newFd \<and>
        s' = s\<lparr>lines := lines s - int k - 1,
               size_bytes := size_bytes s - (newLineOffsets s ! k + 1),
               newLineOffsets := map (\<lambda>offset. offset - (newLineOffsets s ! k + 1))
                   (drop (Suc k) (newLineOffsets s)),
               fd := Some newFd\<rparr> \<and>
        w' = w\<lparr>logfile := map_option (drop (nat (newLineOffsets s ! k + 1))) (logfile w),
               path_fds := {newFd}\<rparr>)"
proof (cases "MAX_LOG_LINES \<le> lines s")
  case True
  with assms(1)
  have t: "priv_truncate s w i (plus_number (at_index (newLineOffsets s) 1024) 1) 1024
      = (Done, s', w')"
    by (simp add: check_triggers_lines)
  from priv_truncate_Done [OF t assms(2)] obtain start newFd where
    r: "plus_number (at_index (newLineOffsets s) 1024) 1 = Number start"
      "open_result i = Inr newFd"
      "s' = s\<lparr>lines := lines s - 1024 - 1, size_bytes := size_bytes s - start,
            newLineOffsets := map (\<lambda>offset. offset - start)
                (slice_from (newLineOffsets s) (1024 + 1)),
            fd := Some newFd\<rparr>"
      "w' = w\<lparr>logfile := map_option (drop (nat start)) (logfile w), path_fds := {newFd}\<rparr>"
    by blast
  from r(1) have k: "1024 < length (newLineOffsets s)" "start = newLineOffsets s ! 1024 + 1"
    by (simp_all add: plus_number_def at_index_def split: if_splits)
  from r(2,3,4) k True show ?thesis
    by (auto simp add: slice_from_drop)
next
  case lines: False
  show ?thesis
  proof (cases "MAX_LOG_FILE_SIZE \<le> size_bytes s")
    case False
    with lines assms(1) show ?thesis by (simp add: check_triggers_def)
  next
    case True
    obtain x li where f: "find_offset (newLineOffsets s) 0 8388608 = (x, li)"
      by (cases "find_offset (newLineOffsets s) 0 8388608") auto
    with lines True assms(1) have t: "priv_truncate s w i (Number (x + 1)) li = (Done, s', w')"
      by (simp add: check_triggers_def MAX_LOG_FILE_SIZE_def Let_def)
    from priv_truncate_Done [OF t assms(2)] have li: "li \<noteq> - 1" by simp
    with find_offset_result [OF f] obtain k where
      k: "k < length (newLineOffsets s)" "li = int k" "x = newLineOffsets s ! k" "8388608 < x"
        "\<forall>j<k. newLineOffsets s ! j \<le> 8388608"
      by auto
    from priv_truncate_Done [OF t assms(2)] k lines True show ?thesis
      by (auto simp add: slice_from_drop nat_add_distrib)
  qed
qed

lemma tracks_sorted_positions:
  assumes "tracks s w"
  shows "sorted_wrt (<) (newLineOffsets s) \<and>
     (\<forall>x\<in>set (newLineOffsets s). 0 \<le> x \<and>
        (case logfile w of
           None \<Rightarrow> False
         | Some buf \<Rightarrow> nat x < length buf \<and> buf ! nat x = newLineByte))"
proof -
  from assms obtain buf where buf: "logfile w = Some buf"
    "newLineOffsets s = push_newlines buf 0 []"
    by (auto simp add: tracks_def push_newlines_positions split: option.splits)
  have "\<forall>x\<in>set (push_newlines buf 0 []). 0 \<le> x \<and> nat x < length buf \<and> buf ! nat x = newLineByte"
    using push_newlines_bounds [of _ buf 0] by force
  with buf show ?thesis by (simp add: push_newlines_sorted)
qed

lemma newlines_of_round_buffer:
  "ls \<noteq> [] \<Longrightarrow> \<forall>l\<in>set ls. newLine \<notin> set l \<Longrightarrow>
     length (filter (\<lambda>b. b = newLineByte) (Buffer_from (join ls @ [newLine]))) = length ls"
proof (induction ls rule: join.induct)
  case 1
  then show ?case by simp
next
  case (2 l)
  then have "filter (\<lambda>b. b = newLineByte) (Buffer_from l) = []"
    using Buffer_from_no_newline [of l] by (auto simp add: filter_empty_conv)
  then show ?case by (simp add: Buffer_from_newline)
next
  case (3 l l' ls)
  then have "filter (\<lambda>b. b = newLineByte) (Buffer_from l) = []"
    using Buffer_from_no_newline [of l] by (auto simp add: filter_empty_conv)
  moreover have "length (filter (\<lambda>b. b = newLineByte) (Buffer_from (join (l' # ls) @ [newLine])))
      = length (l' # ls)"
    using 3 by simp
  ultimately show ?case by (simp add: Buffer_from_newline)
qed

lemma counted_after_write:
  assumes "counted s" and "pendingWrites s \<noteq> []"
    and "\<forall>l\<in>set (pendingWrites s). newLine \<notin> set l"
    and "transferred s i = length (round_buffer s)"
  shows "counted (after_write s i)"
proof -
  have "length (push_newlines (take (transferred s i) (round_buffer s)) (size_bytes s) [])
      = length (pendingWrites s)"
    using assms(2,3,4) newlines_of_round_buffer [of "pendingWrites s"]
    by (simp add: length_push_newlines round_buffer_def)
  with assms(1) show ?thesis
    by (simp add: counted_def after_write_fields after_write_offsets)
qed

subsection \<open>The examples\<close>


lemma all_succeed_fields:
  "mkdir_result (all_succeed newFd ready) = None"
  "readFile_fault (all_succeed newFd ready) = None"
  "open_result (all_succeed newFd ready) = Inr newFd"
  "write_result (all_succeed newFd ready) = Inr ready"
  "pipeline_result (all_succeed newFd ready) = None"
  "rename_result (all_succeed newFd ready) = None"
  "close_result (all_succeed newFd ready) = None"
  by (simp_all add: all_succeed_def)

lemma world_with_fields:
  "logfile (world_with content) = content"
  "path_fds (world_with content) = {}"
  "write_calls (world_with content) = []"
  "reported (world_with content) = []"
  by (simp_all add: world_with_def)

lemma world_opened_fields:
  "logfile (world_opened buf) = Some buf"
  "path_fds (world_opened buf) = {3}"
  "write_calls (world_opened buf) = []"
  "reported (world_opened buf) = []"
  by (simp_all add: world_opened_def)

lemma opened_on_fields:
  "productName (opened_on buf pending) = js ''app''"
  "fd (opened_on buf pending) = Some 3"
  "lines (opened_on buf pending) = int (length (newline_positions buf))"
  "size_bytes (opened_on buf pending) = int (length buf)"
  "bytesWritten (opened_on buf pending) = 0"
  "writeCalled (opened_on buf pending) = 0"
  "newLineOffsets (opened_on buf pending) = newline_positions buf"
  "pendingFlush (opened_on buf pending) = None"
  "pendingWrites (opened_on buf pending) = pending"
  "hasOpened (opened_on buf pending) = True"
  by (simp_all add: opened_on_def)

lemma tracks_opened_on: "tracks (opened_on buf pending) (world_opened buf)"
  by (simp add: tracks_def opened_on_fields world_opened_fields)


lemma counted_opened_on: "counted (opened_on buf pending)"
  by (simp add: counted_def opened_on_fields)

lemma round_buffer_example:
  "round_buffer (opened_on buf [js ''a'']) = [0x61, 0x0A]"
  "round_buffer (opened_on buf [js ''ab'']) = [0x61, 0x62, 0x0A]"
  "round_buffer (opened_on buf [js ''b'', js ''c'']) = [0x62, 0x0A, 0x63, 0x0A]"
  by (simp_all add: round_buffer_def opened_on_def js_def newLine_def utf8_def byte_of_def
      high_surrogate_def low_surrogate_def)


subsection \<open>What a round leaves alone\<close>

lemma join_terminated:
  "ls \<noteq> [] \<Longrightarrow> join ls @ [newLine] = concat (map (\<lambda>l. l @ [newLine]) ls)"
  by (induction ls rule: join.induct) simp_all

lemma Buffer_from_terminated:
  "Buffer_from (concat (map (\<lambda>l. l @ [newLine]) ls))
     = concat (map (\<lambda>l. Buffer_from l @ [newLineByte]) ls)"
proof (induction ls)
  case Nil
  show ?case by simp
next
  case (Cons l ls)
  then show ?case using Buffer_from_newline [of l] by simp
qed

lemma open_logger_keeps:
  "open_logger s w i = (r, s', w') \<Longrightarrow>
     write_calls w' = write_calls w \<and> reported w' = reported w \<and>
     writeCalled s' = writeCalled s \<and> pendingWrites s' = pendingWrites s \<and>
     bytesWritten s' = bytesWritten s \<and> pendingFlush s' = pendingFlush s \<and>
     productName s' = productName s \<and> (hasOpened s \<longrightarrow> hasOpened s')"
  by (auto simp add: open_logger_def open_descriptor_def Let_def
      split: if_splits option.splits sum.splits)

lemma priv_truncate_keeps:
  assumes "priv_truncate s w i position lineIndex = (r, s', w')"
  shows "write_calls w' = write_calls w \<and> reported w' = reported w \<and>
     writeCalled s' = writeCalled s \<and> pendingWrites s' = pendingWrites s \<and>
     bytesWritten s' = bytesWritten s \<and> pendingFlush s' = pendingFlush s \<and>
     productName s' = productName s \<and> (hasOpened s \<longrightarrow> hasOpened s')"
proof (cases position)
  case NaN
  with assms show ?thesis by (simp add: priv_truncate_def)
next
  case (Number start)
  show ?thesis
  proof (cases "lineIndex = - 1 \<and> 0 \<le> start \<and> logfile w \<noteq> None \<and>
      pipeline_result i = None \<and> rename_result i = None \<and> close_result i = None")
    case True
    let ?s1 = "s\<lparr>lines := 0, size_bytes := 0, newLineOffsets := []\<rparr>"
    let ?w1 = "w\<lparr>logfile := map_option (drop (nat start)) (logfile w), path_fds := {}\<rparr>"
    from True Number assms have "open_logger ?s1 ?w1 i = (r, s', w')"
      by (auto simp add: priv_truncate_def Let_def)
    from open_logger_keeps [OF this] show ?thesis by simp
  next
    case False
    with Number assms show ?thesis
      by (auto simp add: priv_truncate_def Let_def split: if_splits option.splits sum.splits)
  qed
qed

lemma check_triggers_keeps:
  assumes "check_triggers s w i = (r, s', w')"
  shows "write_calls w' = write_calls w \<and> reported w' = reported w \<and>
     writeCalled s' = writeCalled s \<and> pendingWrites s' = pendingWrites s \<and>
     bytesWritten s' = bytesWritten s \<and> pendingFlush s' = pendingFlush s \<and>
     productName s' = productName s \<and> (hasOpened s \<longrightarrow> hasOpened s')"
proof -
  obtain x li where f: "find_offset (newLineOffsets s) 0 (MAX_LOG_FILE_SIZE div 4) = (x, li)"
    by (cases "find_offset (newLineOffsets s) 0 (MAX_LOG_FILE_SIZE div 4)") auto
  from assms f consider "s' = s \<and> w' = w"
    | position lineIndex where "priv_truncate s w i position lineIndex = (r, s', w')"
    by (auto simp add: check_triggers_def Let_def split: if_splits)
  then show ?thesis
  proof cases
    case 1
    then show ?thesis by simp
  next
    case 2
    then show ?thesis by (rule priv_truncate_keeps)
  qed
qed

subsection \<open>\<^verbatim>\<open>flush\<close> and the queue\<close>

lemma priv_flush_keeps:
  assumes "priv_flush s w i = (r, s', w')"
  shows "reported w' = reported w \<and> pendingFlush s' = pendingFlush s \<and>
     productName s' = productName s \<and> (hasOpened s \<longrightarrow> hasOpened s')"
proof (cases "truthy (fd s)")
  case False
  with assms show ?thesis by (auto simp add: priv_flush_no_descriptor)
next
  case True
  show ?thesis
  proof (cases "write_result i")
    case (Inl c)
    with True assms show ?thesis by (auto simp add: priv_flush_write_error)
  next
    case (Inr ready)
    with True assms priv_flush_round [of s i ready w]
    have "check_triggers (after_write s i) (world_after_write s w i) i = (r, s', w')"
      by simp
    from check_triggers_keeps [OF this] show ?thesis
      by (simp add: after_write_fields world_after_write_fields)
  qed
qed

lemma flush_Done:
  "pendingFlush s \<noteq> Some Rejected \<Longrightarrow> pendingWrites s \<noteq> [] \<Longrightarrow>
     priv_flush s w i = (Done, s', w') \<Longrightarrow>
     flush s w i = (Done, s'\<lparr>pendingFlush := None\<rparr>, w')"
  by (simp add: flush_def)

lemma flush_reports:
  "pendingFlush s \<noteq> Some Rejected \<Longrightarrow> pendingWrites s \<noteq> [] \<Longrightarrow>
     priv_flush s w i = (Failed e, s', w') \<Longrightarrow>
     flush s w i = (Done, s'\<lparr>pendingFlush := None\<rparr>, w'\<lparr>reported := reported w' @ [e]\<rparr>)"
  by (simp add: flush_def)

lemma flush_Rejected:
  "pendingFlush s \<noteq> Some Rejected \<Longrightarrow> pendingWrites s \<noteq> [] \<Longrightarrow>
     priv_flush s w i = (Rejected, s', w') \<Longrightarrow>
     flush s w i = (Rejected, s'\<lparr>pendingFlush := Some Rejected\<rparr>, w')"
  by (simp add: flush_def)

lemma flush_wedged:
  "pendingFlush s = Some Rejected \<Longrightarrow> flush s w i = (Rejected, s, w)"
  by (simp add: flush_def)

lemma priv_flush_empties:
  assumes "priv_flush s w i = (r, s', w')"
    and "\<forall>ready. write_result i = Inr ready \<longrightarrow> length (round_buffer s) \<le> ready"
  shows "pendingWrites s' = []"
proof (cases "truthy (fd s)")
  case False
  with assms(1) show ?thesis by (auto simp add: priv_flush_def Let_def)
next
  case True
  show ?thesis
  proof (cases "write_result i")
    case (Inl writeErr)
    with True assms(1) show ?thesis by (auto simp add: priv_flush_def Let_def)
  next
    case (Inr ready)
    with assms(2) have full: "transferred s i = length (round_buffer s)"
      by (simp add: transferred_def)
    from True Inr assms(1) priv_flush_round [of s i ready w]
    have "check_triggers (after_write s i) (world_after_write s w i) i = (r, s', w')"
      by simp
    from check_triggers_keeps [OF this] full show ?thesis
      by (simp add: after_write_fields)
  qed
qed

subsection \<open>More examples\<close>

lemma example_encoded:
  "encoded example_platform product lvl m (Some True) t = None"
  "length m \<le> MAX_LOG_LINE_SIZE \<Longrightarrow>
     encoded example_platform product lvl m (Some False) t = Some m"
  by (simp_all add: encoded_def new_LogLine_def example_platform_def)

lemma round_buffer_replicate:
  assumes "0 < n"
  shows "round_buffer (opened_on buf (replicate n (js ''a''))) = concat (replicate n [0x61, 0x0A])"
proof -
  have a: "Buffer_from (js ''a'') = [0x61]"
    by (simp add: js_def utf8_def byte_of_def high_surrogate_def low_surrogate_def)
  from assms have "replicate n (js ''a'') \<noteq> []" by simp
  then have j: "join (replicate n (js ''a'')) @ [newLine]
      = concat (map (\<lambda>l. l @ [newLine]) (replicate n (js ''a'')))"
    by (rule join_terminated)
  have "round_buffer (opened_on buf (replicate n (js ''a'')))
      = Buffer_from (join (replicate n (js ''a'')) @ [newLine])"
    by (simp add: round_buffer_def opened_on_fields)
  also have "\<dots> = Buffer_from (concat (map (\<lambda>l. l @ [newLine]) (replicate n (js ''a''))))"
    by (simp only: j)
  also have "\<dots> = concat (map (\<lambda>l. Buffer_from l @ [newLineByte]) (replicate n (js ''a'')))"
    by (rule Buffer_from_terminated)
  also have "\<dots> = concat (replicate n [0x61, 0x0A])"
    by (simp add: a newLineByte_def)
  finally show ?thesis .
qed

lemma concat_replicate_pair:
  "0 < n \<Longrightarrow> take 1 (concat (replicate n [a, b])) = [a]"
  "length (concat (replicate n [a, b])) = 2 * n"
  by (cases n, simp_all) (induction n, simp_all)

lemma newline_positions_no_newline:
  "b \<noteq> newLineByte \<Longrightarrow> newline_positions (replicate n b) = []"
  by (simp add: newline_positions_def filter_empty_conv)

text \<open>
  The call \<^verbatim>\<open>this.open()\<close> of line 401 finds \<^verbatim>\<open>this.fd\<close> still set and returns at
  line 111.
\<close>

lemma degenerate_cut:
  assumes "truthy (fd s)" and "0 \<le> position" and "logfile w = Some old"
    and "pipeline_result i = None" and "rename_result i = None" and "close_result i = None"
  shows "priv_truncate s w i (Number position) (- 1)
     = (Failed CannotOpenTwice, s\<lparr>lines := 0, size_bytes := 0, newLineOffsets := []\<rparr>,
        w\<lparr>logfile := Some (drop (nat position) old), path_fds := {}\<rparr>)"
  using assms by (simp add: priv_truncate_def Let_def open_logger_def)

subsection \<open>What a round does to the file\<close>

lemma priv_truncate_logfile:
  assumes "priv_truncate s w i position lineIndex = (r, s', w')" and "truthy (fd s)"
  shows "logfile w' = logfile w \<or>
     (\<exists>start. position = Number start \<and> 0 \<le> start \<and>
        logfile w' = map_option (drop (nat start)) (logfile w))"
proof (cases position)
  case NaN
  with assms(1) show ?thesis by (simp add: priv_truncate_def)
next
  case (Number start)
  have twice: "\<And>w1. open_logger (s\<lparr>lines := 0, size_bytes := 0, newLineOffsets := []\<rparr>) w1 i
      = (Failed CannotOpenTwice, s\<lparr>lines := 0, size_bytes := 0, newLineOffsets := []\<rparr>, w1)"
    using assms(2) by (simp add: open_logger_twice)
  from assms(1) Number show ?thesis
    by (auto simp add: priv_truncate_def Let_def twice split: if_splits option.splits sum.splits)
qed

lemma check_triggers_logfile:
  assumes "check_triggers s w i = (r, s', w')" and "truthy (fd s)"
  shows "\<exists>cut. logfile w' = map_option (drop cut) (logfile w)"
proof -
  obtain x li where f: "find_offset (newLineOffsets s) 0 (MAX_LOG_FILE_SIZE div 4) = (x, li)"
    by (cases "find_offset (newLineOffsets s) 0 (MAX_LOG_FILE_SIZE div 4)") auto
  from assms(1) f consider "w' = w"
    | position lineIndex where "priv_truncate s w i position lineIndex = (r, s', w')"
    by (auto simp add: check_triggers_def Let_def split: if_splits)
  then have "logfile w' = logfile w \<or>
      (\<exists>start. logfile w' = map_option (drop (nat start)) (logfile w))"
  proof cases
    case 1
    then show ?thesis by simp
  next
    case 2
    from priv_truncate_logfile [OF this assms(2)] show ?thesis by blast
  qed
  then show ?thesis
  proof
    assume "logfile w' = logfile w"
    then have "logfile w' = map_option (drop 0) (logfile w)"
      by (simp add: option.map_ident)
    then show ?thesis by blast
  next
    assume "\<exists>start. logfile w' = map_option (drop (nat start)) (logfile w)"
    then show ?thesis by blast
  qed
qed

lemma full_write_lands:
  assumes "priv_flush s w i = (r, s', w')" and "truthy (fd s)"
    and "names_logfile w (fd s)" and "logfile w = Some old"
    and "write_result i = Inr ready" and "length (round_buffer s) \<le> ready"
  shows "(\<exists>cut. logfile w' = Some (drop cut (old @ round_buffer s))) \<and>
     (lines s + int (length (pendingWrites s)) < MAX_LOG_LINES \<and>
      size_bytes s + int (length (round_buffer s)) < MAX_LOG_FILE_SIZE \<longrightarrow>
        r = Done \<and> logfile w' = Some (old @ round_buffer s))"
proof -
  let ?s1 = "after_write s i"
  let ?w1 = "world_after_write s w i"
  from assms(5,6) have full: "transferred s i = length (round_buffer s)"
    by (simp add: transferred_def)
  from assms(1,2,5) priv_flush_round [of s i ready w]
  have fin: "check_triggers ?s1 ?w1 i = (r, s', w')" by simp
  have fd1: "truthy (fd ?s1)" using assms(2) by (simp add: after_write_fields)
  have w1: "logfile ?w1 = Some (old @ round_buffer s)"
    using assms(3,4) full by (simp add: world_after_write_fields)
  from check_triggers_logfile [OF fin fd1] w1
  have "\<exists>cut. logfile w' = Some (drop cut (old @ round_buffer s))" by simp
  moreover have "r = Done \<and> logfile w' = Some (old @ round_buffer s)"
    if "lines s + int (length (pendingWrites s)) < MAX_LOG_LINES"
      and "size_bytes s + int (length (round_buffer s)) < MAX_LOG_FILE_SIZE"
  proof -
    from that full have "check_triggers ?s1 ?w1 i = (Done, ?s1, ?w1)"
      by (simp add: check_triggers_idle after_write_fields)
    with fin w1 show ?thesis by simp
  qed
  ultimately show ?thesis by blast
qed

subsection \<open>When a round is rejected\<close>

lemma open_logger_settles: "fst (open_logger s w i) \<noteq> Rejected"
  by (simp add: open_logger_def open_descriptor_def Let_def split: option.splits sum.splits)

lemma priv_truncate_Rejected:
  "fst (priv_truncate s w i position lineIndex) = Rejected \<longleftrightarrow>
     (case position of NaN \<Rightarrow> True | Number start \<Rightarrow> start < 0)"
proof (cases position)
  case NaN
  then show ?thesis by (simp add: priv_truncate_def)
next
  case (Number start)
  have "fst (open_logger (s\<lparr>lines := 0, size_bytes := 0, newLineOffsets := []\<rparr>) w1 i)
      \<noteq> Rejected" for w1
    by (rule open_logger_settles)
  with Number show ?thesis
    by (simp add: priv_truncate_def Let_def split: option.splits sum.splits)
qed

lemma find_offset_positive:
  "0 \<le> m \<Longrightarrow> 0 \<le> fst (find_offset xs i0 m)"
  by (induction xs arbitrary: i0) simp_all

lemma check_triggers_Rejected:
  "fst (check_triggers s w i) = Rejected \<longleftrightarrow>
     MAX_LOG_LINES \<le> lines s \<and>
     (length (newLineOffsets s) \<le> 1024 \<or> newLineOffsets s ! 1024 + 1 < 0)"
proof (cases "MAX_LOG_LINES \<le> lines s")
  case True
  then show ?thesis
    by (auto simp add: check_triggers_lines priv_truncate_Rejected plus_number_def at_index_def)
next
  case False
  have "0 \<le> fst (find_offset (newLineOffsets s) 0 8388608)"
    by (rule find_offset_positive) simp
  with False show ?thesis
    by (auto simp add: check_triggers_def priv_truncate_Rejected MAX_LOG_FILE_SIZE_def Let_def
        split: prod.splits)
qed

lemma priv_flush_Rejected:
  "fst (priv_flush s w i) = Rejected \<longleftrightarrow>
     truthy (fd s) \<and> (\<exists>ready. write_result i = Inr ready) \<and>
     MAX_LOG_LINES \<le> lines (after_write s i) \<and>
     (length (newLineOffsets (after_write s i)) \<le> 1024 \<or>
      newLineOffsets (after_write s i) ! 1024 + 1 < 0)"
proof (cases "truthy (fd s)")
  case False
  then show ?thesis by (simp add: priv_flush_no_descriptor)
next
  case True
  show ?thesis
  proof (cases "write_result i")
    case (Inl c)
    with True show ?thesis by (simp add: priv_flush_write_error)
  next
    case (Inr ready)
    with True show ?thesis
      by (simp add: priv_flush_round [of s i ready w] check_triggers_Rejected)
  qed
qed

lemma flush_settles:
  "fst (flush s w i) = Done \<or> fst (flush s w i) = Rejected"
proof -
  obtain r s' w' where r: "priv_flush s w i = (r, s', w')"
    by (cases "priv_flush s w i") auto
  then show ?thesis by (cases r) (simp_all add: flush_def)
qed

lemma flush_Rejected_iff:
  "fst (flush s w i) = Rejected \<longleftrightarrow>
     pendingFlush s = Some Rejected \<or>
     (pendingWrites s \<noteq> [] \<and> fst (priv_flush s w i) = Rejected)"
proof -
  obtain r s' w' where r: "priv_flush s w i = (r, s', w')"
    by (cases "priv_flush s w i") auto
  then show ?thesis by (cases r) (simp_all add: flush_def)
qed

subsection \<open>Failures of a truncation\<close>

lemma open_logger_error:
  "open_logger s w i = (Failed e, s', w') \<Longrightarrow> e = CannotOpenTwice \<or> (\<exists>x. e = OpenFail x)"
  by (auto simp add: open_logger_def open_descriptor_def Let_def
      split: if_splits option.splits sum.splits)

lemma priv_truncate_copy_failure:
  assumes "priv_truncate s w i position lineIndex = (Failed (Wrapped m c), s', w')"
    and "m = ''_truncate(): could not pipeline'' \<or> m = ''_truncate(): could not rename''"
  shows "s' = s \<and> w' = w"
proof (cases position)
  case NaN
  with assms(1) show ?thesis by (simp add: priv_truncate_def)
next
  case (Number start)
  have "open_logger s1 w1 i \<noteq> (Failed (Wrapped m c), s', w')" for s1 w1
    using open_logger_error [of s1 w1 i "Wrapped m c" s' w'] by auto
  with assms Number show ?thesis
    by (auto simp add: priv_truncate_def Let_def split: if_splits option.splits sum.splits)
qed

lemma check_triggers_due:
  assumes "MAX_LOG_LINES \<le> lines s \<or> MAX_LOG_FILE_SIZE \<le> size_bytes s"
  shows "\<exists>position lineIndex. check_triggers s w i = priv_truncate s w i position lineIndex"
proof (cases "MAX_LOG_LINES \<le> lines s")
  case True
  then show ?thesis using check_triggers_lines by blast
next
  case False
  with assms show ?thesis
    by (auto simp add: check_triggers_def Let_def split: prod.splits)
qed

lemma check_triggers_Failed:
  assumes "check_triggers s w i = (Failed e, s', w')"
  shows "(MAX_LOG_LINES \<le> lines s \<or> MAX_LOG_FILE_SIZE \<le> size_bytes s) \<and>
     (\<exists>position lineIndex. priv_truncate s w i position lineIndex = (Failed e, s', w'))"
proof -
  from assms have due: "MAX_LOG_LINES \<le> lines s \<or> MAX_LOG_FILE_SIZE \<le> size_bytes s"
    by (auto simp add: check_triggers_def split: if_splits)
  from check_triggers_due [OF this, of w i] obtain position lineIndex where
    "check_triggers s w i = priv_truncate s w i position lineIndex"
    by blast
  with assms have "priv_truncate s w i position lineIndex = (Failed e, s', w')" by simp
  with due show ?thesis by blast
qed

text \<open>
  A round that ends with the error of the copy or of the rename leaves the logger and the
  world as they were after the write, and the next round whose write succeeds calls
  \<^verbatim>\<open>_truncate\<close> again.
\<close>

lemma round_copy_failure:
  assumes "priv_flush s w i = (Failed (Wrapped m c), s', w')"
    and "m = ''_truncate(): could not pipeline'' \<or> m = ''_truncate(): could not rename''"
  shows "truthy (fd s) \<and> s' = after_write s i \<and> w' = world_after_write s w i \<and>
     (MAX_LOG_LINES \<le> lines s' \<or> MAX_LOG_FILE_SIZE \<le> size_bytes s')"
proof -
  have fd: "truthy (fd s)"
    using assms(1) by (cases "truthy (fd s)") (simp_all add: priv_flush_no_descriptor)
  have "\<exists>ready. write_result i = Inr ready"
  proof (cases "write_result i")
    case (Inl x)
    with fd assms show ?thesis by (auto simp add: priv_flush_write_error)
  next
    case (Inr ready)
    then show ?thesis by simp
  qed
  then obtain ready where "write_result i = Inr ready" ..
  with fd assms(1) priv_flush_round [of s i ready w]
  have fin: "check_triggers (after_write s i) (world_after_write s w i) i
      = (Failed (Wrapped m c), s', w')"
    by simp
  from check_triggers_Failed [OF fin] obtain position lineIndex where
    due: "MAX_LOG_LINES \<le> lines (after_write s i) \<or>
      MAX_LOG_FILE_SIZE \<le> size_bytes (after_write s i)"
    and t: "priv_truncate (after_write s i) (world_after_write s w i) i position lineIndex
      = (Failed (Wrapped m c), s', w')"
    by blast
  from priv_truncate_copy_failure [OF t assms(2)] due fd show ?thesis by simp
qed

lemma round_retries:
  assumes "truthy (fd s)" and "write_result j = Inr ready"
    and "MAX_LOG_LINES \<le> lines s \<or> MAX_LOG_FILE_SIZE \<le> size_bytes s"
  shows "\<exists>position lineIndex.
     priv_flush s w j
       = priv_truncate (after_write s j) (world_after_write s w j) j position lineIndex"
proof -
  from assms(3) have "MAX_LOG_LINES \<le> lines (after_write s j) \<or>
      MAX_LOG_FILE_SIZE \<le> size_bytes (after_write s j)"
    by (auto simp add: after_write_fields)
  from check_triggers_due [OF this] priv_flush_round [OF assms(1,2)] show ?thesis
    by simp
qed

section \<open>The claims\<close>

subsection \<open>Rotation by line count\<close>



subsection \<open>Rotation by size: the cut with no offset above the mark\<close>

text \<open>
  Claim C2 at an input where the code does not do what the claim says. The file holds
  32 MiB without a newline, the line \<^verbatim>\<open>ab\<close> is queued, and the write transfers two of
  the three bytes of \<^verbatim>\<open>ab\n\<close>. No offset is above 8388608, so \<^verbatim>\<open>_truncate\<close> is
  called with line index -1 and position 8388609. The copy, the rename and the close
  succeed; the counters are reset; and \<^verbatim>\<open>open\<close>, called with \<^verbatim>\<open>fd\<close> still set,
  returns ``Cannot open twice()'' at once. The file now holds 25165825 bytes, the logger
  says 0, and it keeps the descriptor it has closed, which does not name the new file.
\<close>

theorem degenerate_cut_does_not_recover:
  "tracks (opened_on (replicate 33554432 0x61) [js ''ab''])
      (world_opened (replicate 33554432 0x61)) \<and>
   counted (opened_on (replicate 33554432 0x61) [js ''ab'']) \<and>
   priv_flush (opened_on (replicate 33554432 0x61) [js ''ab''])
       (world_opened (replicate 33554432 0x61)) (all_succeed 4 2)
     = (Failed CannotOpenTwice,
        (opened_on [] [[newLine]])\<lparr>writeCalled := 1, bytesWritten := 2\<rparr>,
        \<lparr>logfile = Some (replicate 25165823 0x61 @ [0x61, 0x62]), path_fds = {},
         write_calls = [[0x61, 0x62, 0x0A]], reported = []\<rparr>) \<and>
   fd ((opened_on [] [[newLine]])\<lparr>writeCalled := 1, bytesWritten := 2\<rparr>) = Some 3 \<and>
   size_bytes ((opened_on [] [[newLine]])\<lparr>writeCalled := 1, bytesWritten := 2\<rparr>) = 0"
proof -
  let ?B = "replicate 33554432 0x61 :: byte list"
  let ?s = "opened_on ?B [js ''ab'']"
  let ?w = "world_opened ?B"
  let ?i = "all_succeed 4 2"
  let ?s1 = "after_write ?s ?i"
  let ?w1 = "world_after_write ?s ?w ?i"
  note io = all_succeed_fields [of 4 2]
  have np: "newline_positions ?B = []"
    by (rule newline_positions_no_newline) (simp add: newLineByte_def)
  have np0: "newline_positions [] = []"
    by (simp add: newline_positions_def)
  have n: "transferred ?s ?i = 2"
    by (simp add: transferred_def io round_buffer_example)
  have s1: "?s1 = (opened_on ?B [[newLine]])\<lparr>writeCalled := 1, bytesWritten := 2,
      size_bytes := 33554434, lines := 1\<rparr>"
    unfolding after_write_def written_def n round_buffer_example
    by (simp add: opened_on_def np newLineByte_def Let_def)
  have w1: "?w1 = \<lparr>logfile = Some (?B @ [0x61, 0x62]), path_fds = {3},
      write_calls = [[0x61, 0x62, 0x0A]], reported = []\<rparr>"
    unfolding world_after_write_def appended_def n round_buffer_example
    by (simp add: world_opened_def names_logfile_def opened_on_fields)
  have "priv_flush ?s ?w ?i = check_triggers ?s1 ?w1 ?i"
    by (rule priv_flush_round [where ready = 2]) (simp_all add: opened_on_fields truthy_def io)
  also have "\<dots> = priv_truncate ?s1 ?w1 ?i (Number 8388609) (- 1)"
    by (simp add: check_triggers_def s1 opened_on_fields np MAX_LOG_LINES_def
        MAX_LOG_FILE_SIZE_def Let_def)
  also have "\<dots> = (Failed CannotOpenTwice,
        ?s1\<lparr>lines := 0, size_bytes := 0, newLineOffsets := []\<rparr>,
        ?w1\<lparr>logfile := Some (drop (nat 8388609) (?B @ [0x61, 0x62])), path_fds := {}\<rparr>)"
    by (rule degenerate_cut) (simp_all add: s1 w1 opened_on_fields truthy_def io)
  also have "\<dots> = (Failed CannotOpenTwice,
        (opened_on [] [[newLine]])\<lparr>writeCalled := 1, bytesWritten := 2\<rparr>,
        \<lparr>logfile = Some (replicate 25165823 0x61 @ [0x61, 0x62]), path_fds = {},
         write_calls = [[0x61, 0x62, 0x0A]], reported = []\<rparr>)"
    unfolding s1 w1 by (simp add: opened_on_def np np0)
  finally show ?thesis
    by (simp add: tracks_opened_on counted_opened_on opened_on_fields)
qed

subsection \<open>One write per round\<close>

text \<open>
  Claim C3, as the code has it. A round of \<^verbatim>\<open>_flush\<close> on a logger whose \<^verbatim>\<open>fd\<close> is
  falsy (\<^verbatim>\<open>null\<close>, or the number 0) empties the queue and returns the error of line 251:
  no buffer reaches \<^verbatim>\<open>fs.write\<close>, the write counter and the file stay as they were. A
  round on a logger whose \<^verbatim>\<open>fd\<close> is truthy and whose queue \<open>l1, ..., ln\<close> is not empty
  hands exactly one buffer to \<^verbatim>\<open>fs.write\<close> and adds one to the write counter, whatever
  the write and the cut that may follow it do. The buffer is the UTF-8 encoding of \<open>l1\<close>,
  newline, ..., \<open>ln\<close>, newline, which is the encoding of each line followed by a newline
  byte, in the order of the queue. When the descriptor names the file at
  \<^verbatim>\<open>logFileLocation\<close> and the write transfers the whole buffer, the file that the round
  leaves is the old file followed by the buffer, less what a cut has taken from its head;
  and it is all of it, and the round completes, when the counters stay under the caps.
\<close>

theorem one_write_per_round:
  "(\<not> truthy (fd s) \<longrightarrow>
      priv_flush s w i = (Failed FdIsNull, s\<lparr>pendingWrites := []\<rparr>, w)) \<and>
   (truthy (fd s) \<and> pendingWrites s \<noteq> [] \<and> priv_flush s w i = (r, s', w') \<longrightarrow>
     write_calls w' = write_calls w @ [round_buffer s] \<and>
     round_buffer s = Buffer_from (concat (map (\<lambda>l. l @ [newLine]) (pendingWrites s))) \<and>
     round_buffer s = concat (map (\<lambda>l. Buffer_from l @ [newLineByte]) (pendingWrites s)) \<and>
     writeCalled s' = writeCalled s + 1 \<and>
     (names_logfile w (fd s) \<and> logfile w = Some old \<and> write_result i = Inr ready \<and>
      length (round_buffer s) \<le> ready \<longrightarrow>
        (\<exists>cut. logfile w' = Some (drop cut (old @ round_buffer s))) \<and>
        (lines s + int (length (pendingWrites s)) < MAX_LOG_LINES \<and>
         size_bytes s + int (length (round_buffer s)) < MAX_LOG_FILE_SIZE \<longrightarrow>
           r = Done \<and> logfile w' = Some (old @ round_buffer s))))"
proof (intro conjI impI)
  assume "\<not> truthy (fd s)"
  then show "priv_flush s w i = (Failed FdIsNull, s\<lparr>pendingWrites := []\<rparr>, w)"
    by (rule priv_flush_no_descriptor)
next
  assume a: "truthy (fd s) \<and> pendingWrites s \<noteq> [] \<and> priv_flush s w i = (r, s', w')"
  show buf: "round_buffer s = Buffer_from (concat (map (\<lambda>l. l @ [newLine]) (pendingWrites s)))"
    using a by (simp add: round_buffer_def join_terminated)
  then show "round_buffer s = concat (map (\<lambda>l. Buffer_from l @ [newLineByte]) (pendingWrites s))"
    by (simp add: Buffer_from_terminated)
  have calls: "write_calls w' = write_calls w @ [round_buffer s] \<and>
      writeCalled s' = writeCalled s + 1"
  proof (cases "write_result i")
    case (Inl writeErr)
    with a show ?thesis by (auto simp add: priv_flush_write_error)
  next
    case (Inr ready)
    with a priv_flush_round [of s i ready w]
    have "check_triggers (after_write s i) (world_after_write s w i) i = (r, s', w')"
      by simp
    from check_triggers_keeps [OF this] show ?thesis
      by (simp add: world_after_write_fields after_write_fields)
  qed
  from calls show "write_calls w' = write_calls w @ [round_buffer s]" by simp
  from calls show "writeCalled s' = writeCalled s + 1" by simp
  assume b: "names_logfile w (fd s) \<and> logfile w = Some old \<and> write_result i = Inr ready \<and>
      length (round_buffer s) \<le> ready"
  from a b full_write_lands [of s w i r s' w' old ready]
  have lands: "(\<exists>cut. logfile w' = Some (drop cut (old @ round_buffer s))) \<and>
     (lines s + int (length (pendingWrites s)) < MAX_LOG_LINES \<and>
      size_bytes s + int (length (round_buffer s)) < MAX_LOG_FILE_SIZE \<longrightarrow>
        r = Done \<and> logfile w' = Some (old @ round_buffer s))"
    by blast
  from lands show "\<exists>cut. logfile w' = Some (drop cut (old @ round_buffer s))" by blast
  assume "lines s + int (length (pendingWrites s)) < MAX_LOG_LINES \<and>
      size_bytes s + int (length (round_buffer s)) < MAX_LOG_FILE_SIZE"
  with lands show "r = Done" "logfile w' = Some (old @ round_buffer s)" by blast+
qed

theorem one_write_per_round_witness:
  "\<not> truthy (fd ((opened_on [] [js ''a''])\<lparr>fd := Some 0\<rparr>)) \<and>
   priv_flush ((opened_on [] [js ''a''])\<lparr>fd := Some 0\<rparr>) (world_opened []) (all_succeed 4 100)
     = (Failed FdIsNull, (opened_on [] [])\<lparr>fd := Some 0\<rparr>, world_opened []) \<and>
   truthy (fd (opened_on [0x61, 0x0A] [js ''b'', js ''c''])) \<and>
   pendingWrites (opened_on [0x61, 0x0A] [js ''b'', js ''c'']) \<noteq> [] \<and>
   names_logfile (world_opened [0x61, 0x0A]) (fd (opened_on [0x61, 0x0A] [js ''b'', js ''c''])) \<and>
   logfile (world_opened [0x61, 0x0A]) = Some [0x61, 0x0A] \<and>
   write_result (all_succeed 4 100) = Inr 100 \<and>
   length (round_buffer (opened_on [0x61, 0x0A] [js ''b'', js ''c''])) \<le> 100 \<and>
   lines (opened_on [0x61, 0x0A] [js ''b'', js ''c''])
     + int (length (pendingWrites (opened_on [0x61, 0x0A] [js ''b'', js ''c''])))
     < MAX_LOG_LINES \<and>
   size_bytes (opened_on [0x61, 0x0A] [js ''b'', js ''c''])
     + int (length (round_buffer (opened_on [0x61, 0x0A] [js ''b'', js ''c''])))
     < MAX_LOG_FILE_SIZE \<and>
   round_buffer (opened_on [0x61, 0x0A] [js ''b'', js ''c'']) = [0x62, 0x0A, 0x63, 0x0A] \<and>
   fst (priv_flush (opened_on [0x61, 0x0A] [js ''b'', js ''c'']) (world_opened [0x61, 0x0A])
       (all_succeed 4 100)) = Done \<and>
   writeCalled (fst (snd (priv_flush (opened_on [0x61, 0x0A] [js ''b'', js ''c''])
       (world_opened [0x61, 0x0A]) (all_succeed 4 100)))) = 1 \<and>
   write_calls (snd (snd (priv_flush (opened_on [0x61, 0x0A] [js ''b'', js ''c''])
       (world_opened [0x61, 0x0A]) (all_succeed 4 100)))) = [[0x62, 0x0A, 0x63, 0x0A]] \<and>
   logfile (snd (snd (priv_flush (opened_on [0x61, 0x0A] [js ''b'', js ''c''])
       (world_opened [0x61, 0x0A]) (all_succeed 4 100))))
     = Some [0x61, 0x0A, 0x62, 0x0A, 0x63, 0x0A]"
proof -
  let ?z = "(opened_on [] [js ''a''])\<lparr>fd := Some 0\<rparr>"
  let ?s = "opened_on [0x61, 0x0A] [js ''b'', js ''c'']"
  let ?w = "world_opened [0x61, 0x0A]"
  let ?i = "all_succeed 4 100"
  define r where "r = fst (priv_flush ?s ?w ?i)"
  define s' where "s' = fst (snd (priv_flush ?s ?w ?i))"
  define w' where "w' = snd (snd (priv_flush ?s ?w ?i))"
  have run: "priv_flush ?s ?w ?i = (r, s', w')"
    by (simp add: r_def s'_def w'_def)
  have zero: "\<not> truthy (fd ?z)" by (simp add: truthy_def)
  with one_write_per_round [of ?z "world_opened []" ?i]
  have "priv_flush ?z (world_opened []) ?i = (Failed FdIsNull, ?z\<lparr>pendingWrites := []\<rparr>,
      world_opened [])"
    by blast
  then have none: "priv_flush ?z (world_opened []) ?i
      = (Failed FdIsNull, (opened_on [] [])\<lparr>fd := Some 0\<rparr>, world_opened [])"
    by (simp add: opened_on_def)
  have hyps: "truthy (fd ?s)" "pendingWrites ?s \<noteq> []" "names_logfile ?w (fd ?s)"
    "logfile ?w = Some [0x61, 0x0A]" "write_result ?i = Inr 100"
    "length (round_buffer ?s) \<le> 100"
    "lines ?s + int (length (pendingWrites ?s)) < MAX_LOG_LINES"
    "size_bytes ?s + int (length (round_buffer ?s)) < MAX_LOG_FILE_SIZE"
    by (simp_all add: opened_on_fields truthy_def names_logfile_def world_opened_fields
        all_succeed_fields round_buffer_example newline_positions_def MAX_LOG_LINES_def
        MAX_LOG_FILE_SIZE_def)
  from one_write_per_round [of ?s ?w ?i r s' w' "[0x61, 0x0A]" 100] run hyps
  have "write_calls w' = write_calls ?w @ [round_buffer ?s]"
    "writeCalled s' = writeCalled ?s + 1" "r = Done"
    "logfile w' = Some ([0x61, 0x0A] @ round_buffer ?s)"
    by blast+
  then have "write_calls w' = [[0x62, 0x0A, 0x63, 0x0A]]" "writeCalled s' = 1" "r = Done"
    "logfile w' = Some [0x61, 0x0A, 0x62, 0x0A, 0x63, 0x0A]"
    by (simp_all add: round_buffer_example world_opened_fields opened_on_fields)
  with zero none hyps show ?thesis
    by (simp add: r_def s'_def w'_def round_buffer_example names_logfile_def
        world_opened_fields)
qed

text \<open>
  Counterexample to C3 as stated: a round on a logger whose \<^verbatim>\<open>fd\<close> is \<^verbatim>\<open>null\<close> and
  whose queue holds one line returns the error of line 251; no buffer reaches
  \<^verbatim>\<open>fs.write\<close> and the write counter stays as it was.
\<close>

theorem no_write_without_descriptor:
  "priv_flush ((opened_on [] [js ''a''])\<lparr>fd := None\<rparr>) (world_with (Some [])) (all_succeed 4 100)
     = (Failed FdIsNull, (opened_on [] [])\<lparr>fd := None\<rparr>, world_with (Some [])) \<and>
   pendingWrites ((opened_on [] [js ''a''])\<lparr>fd := None\<rparr>) = [js ''a''] \<and>
   write_calls (world_with (Some [])) = [] \<and>
   writeCalled ((opened_on [] [])\<lparr>fd := None\<rparr>)
     = writeCalled ((opened_on [] [js ''a''])\<lparr>fd := None\<rparr>)"
  by (simp add: priv_flush_def opened_on_def world_with_def truthy_def Let_def)

subsection \<open>Recovery at \<^verbatim>\<open>open\<close>: a missing file\<close>

text \<open>
  Claim C4 at an input where the code does not do what the claim says. A first \<^verbatim>\<open>open\<close>
  reads the file \<^verbatim>\<open>a\n\<close>, sets \<^verbatim>\<open>size\<close> 2, \<^verbatim>\<open>lines\<close> 1 and the offset 1
  (lines 147-158), and fails at \<^verbatim>\<open>fs.open\<close> with \<^verbatim>\<open>EMFILE\<close>, an error that does not
  bail. The file is then removed, and \<^verbatim>\<open>open\<close> is called again: \<^verbatim>\<open>fs.readFile\<close> fails
  with \<^verbatim>\<open>ENOENT\<close>, the branch of line 146 is not taken, and \<^verbatim>\<open>open\<close> succeeds on a
  new, empty file with \<^verbatim>\<open>size\<close> 2, \<^verbatim>\<open>lines\<close> 1 and the offset 1.
\<close>

theorem open_keeps_stale_counters:
  "open_logger (new_logger (js ''app'')) (world_with (Some [0x61, 0x0A]))
       ((all_succeed 3 0)\<lparr>open_result :=
           Inl \<lparr>code = ''EMFILE'', syscall = ''open'', path = ''/log''\<rparr>\<rparr>)
     = (Failed (OpenFail (new_OpenFailError ''Could not open log file''
                  \<lparr>code = ''EMFILE'', syscall = ''open'', path = ''/log''\<rparr>)),
        (new_logger (js ''app''))\<lparr>size_bytes := 2, newLineOffsets := [1], lines := 1\<rparr>,
        world_with (Some [0x61, 0x0A])) \<and>
   open_logger ((new_logger (js ''app''))\<lparr>size_bytes := 2, newLineOffsets := [1], lines := 1\<rparr>)
       (world_with None) (all_succeed 3 0)
     = (Done,
        (new_logger (js ''app''))\<lparr>size_bytes := 2, newLineOffsets := [1], lines := 1,
           hasOpened := True, fd := Some 3\<rparr>,
        \<lparr>logfile = Some [], path_fds = {3}, write_calls = [], reported = []\<rparr>) \<and>
   size_bytes ((new_logger (js ''app''))\<lparr>size_bytes := 2, newLineOffsets := [1], lines := 1,
           hasOpened := True, fd := Some 3\<rparr>) = 2 \<and>
   lines ((new_logger (js ''app''))\<lparr>size_bytes := 2, newLineOffsets := [1], lines := 1,
           hasOpened := True, fd := Some 3\<rparr>) = 1 \<and>
   newLineOffsets ((new_logger (js ''app''))\<lparr>size_bytes := 2, newLineOffsets := [1],
           lines := 1, hasOpened := True, fd := Some 3\<rparr>) = [1]"
  by (simp add: open_logger_def open_descriptor_def readFile_def world_with_def
      all_succeed_def new_logger_def truthy_def newLineByte_def ENOENT_def
      OpenFailError_wrap_def new_OpenFailError_def)

subsection \<open>The cap on the length of a line\<close>

text \<open>
  Claim C5. Let \<open>str\<close> be the serialization of the line built from the caller's
  arguments, which has no \<^verbatim>\<open>truncated\<close> field. When \<open>str\<close> has at most 32768 code
  units, \<open>str\<close> itself is queued. When it has more, the string queued is the serialization
  of a second line with the same name, message and time, with \<^verbatim>\<open>fields\<close> equal to
  \<^verbatim>\<open>{ isTruncated: true }\<close>, with level \<^verbatim>\<open>warn\<close> if the level was \<^verbatim>\<open>info\<close> and the
  level unchanged otherwise, and with \<^verbatim>\<open>truncated\<close> equal to the first 32765 code units
  of \<open>str\<close> followed by three dots, which is 32768 code units long. What
  \<^verbatim>\<open>_write\<close> queues is the string so computed.
\<close>

theorem oversized_line_is_truncated:
  "toISOString p t = Some stamp \<and>
   JSON_stringify p
      \<lparr>name = product, hostname = os_hostname p, pid = process_pid p, level = lvl,
       msg = m, time = stamp, v_version = 1,
       fields_obj = (case info of None \<Rightarrow> EMPTY_OBJECT | Some f \<Rightarrow> Info f),
       truncated = None\<rparr> = Some str \<longrightarrow>
     (length str \<le> MAX_LOG_LINE_SIZE \<longrightarrow> encoded p product lvl m info t = Some str) \<and>
     (length str > MAX_LOG_LINE_SIZE \<longrightarrow>
        encoded p product lvl m info t =
          JSON_stringify p
            \<lparr>name = product, hostname = os_hostname p, pid = process_pid p,
             level = (if lvl = js ''info'' then js ''warn'' else lvl),
             msg = m, time = stamp, v_version = 1, fields_obj = IsTruncatedTrue,
             truncated = Some (take 32765 str @ js ''...'')\<rparr> \<and>
        length (take 32765 str @ js ''...'') = 32768 \<and>
        drop 32765 (take 32765 str @ js ''...'') = js ''...'') \<and>
     (encoded p (productName s) lvl m info t = Some out \<longrightarrow>
        priv_write p s w i lvl m info t
          = flush (s\<lparr>pendingWrites := pendingWrites s @ [out]\<rparr>) w i)"
  by (auto simp add: encoded_def new_LogLine_def priv_write_def MAX_LOG_LINE_SIZE_def Let_def
      js_def)

theorem oversized_line_is_truncated_witness:
  "toISOString example_platform (0 :: nat) = Some (js ''1970-01-01T00:00:00.000Z'') \<and>
   JSON_stringify example_platform
      \<lparr>name = js ''app'', hostname = os_hostname example_platform,
       pid = process_pid example_platform, level = js ''info'',
       msg = replicate 40000 0x41, time = js ''1970-01-01T00:00:00.000Z'', v_version = 1,
       fields_obj = EMPTY_OBJECT, truncated = None\<rparr> = Some (replicate 40000 0x41) \<and>
   length (replicate 40000 (0x41 :: 16 word)) > MAX_LOG_LINE_SIZE \<and>
   encoded example_platform (js ''app'') (js ''info'') (replicate 40000 0x41) None (0 :: nat)
     = Some (replicate 40000 0x41 @ replicate 32765 0x41 @ js ''...'') \<and>
   JSON_stringify example_platform
      \<lparr>name = js ''app'', hostname = os_hostname example_platform,
       pid = process_pid example_platform, level = js ''info'',
       msg = js ''hi'', time = js ''1970-01-01T00:00:00.000Z'', v_version = 1,
       fields_obj = EMPTY_OBJECT, truncated = None\<rparr> = Some (js ''hi'') \<and>
   length (js ''hi'') \<le> MAX_LOG_LINE_SIZE \<and>
   encoded example_platform (productName (opened_on [] [])) (js ''info'') (js ''hi'') None
       (0 :: nat) = Some (js ''hi'') \<and>
   priv_write example_platform (opened_on [] []) (world_with (Some [])) (all_succeed 4 100)
       (js ''info'') (js ''hi'') None (0 :: nat)
     = flush (opened_on [] [js ''hi'']) (world_with (Some [])) (all_succeed 4 100)"
proof -
  let ?p = example_platform
  let ?stamp = "js ''1970-01-01T00:00:00.000Z''"
  let ?big = "replicate 40000 0x41 :: jsstring"
  have t: "toISOString ?p (0 :: nat) = Some ?stamp"
    by (simp add: example_platform_def)
  have s1: "JSON_stringify ?p
      \<lparr>name = js ''app'', hostname = os_hostname ?p, pid = process_pid ?p,
       level = js ''info'', msg = ?big, time = ?stamp, v_version = 1,
       fields_obj = (case None :: bool option of None \<Rightarrow> EMPTY_OBJECT | Some f \<Rightarrow> Info f),
       truncated = None\<rparr> = Some ?big"
    by (simp add: example_platform_def)
  have s2: "JSON_stringify ?p
      \<lparr>name = js ''app'', hostname = os_hostname ?p, pid = process_pid ?p,
       level = js ''info'', msg = js ''hi'', time = ?stamp, v_version = 1,
       fields_obj = (case None :: bool option of None \<Rightarrow> EMPTY_OBJECT | Some f \<Rightarrow> Info f),
       truncated = None\<rparr> = Some (js ''hi'')"
    by (simp add: example_platform_def)
  have len: "length ?big > MAX_LOG_LINE_SIZE" "length (js ''hi'') \<le> MAX_LOG_LINE_SIZE"
    by (simp_all add: MAX_LOG_LINE_SIZE_def js_def)
  have name: "productName (opened_on [] []) = js ''app''"
    by (simp add: opened_on_fields)
  from oversized_line_is_truncated
    [of ?p 0 ?stamp "js ''app''" "js ''info''" ?big None ?big] t s1 len(1)
  have "encoded ?p (js ''app'') (js ''info'') ?big None (0 :: nat) =
          JSON_stringify ?p
            \<lparr>name = js ''app'', hostname = os_hostname ?p, pid = process_pid ?p,
             level = (if js ''info'' = js ''info'' then js ''warn'' else js ''info''),
             msg = ?big, time = ?stamp, v_version = 1, fields_obj = IsTruncatedTrue,
             truncated = Some (take 32765 ?big @ js ''...'')\<rparr>"
    by blast
  then have e1: "encoded ?p (js ''app'') (js ''info'') ?big None (0 :: nat)
      = Some (?big @ replicate 32765 0x41 @ js ''...'')"
    by (simp add: example_platform_def)
  from oversized_line_is_truncated
    [of ?p 0 ?stamp "js ''app''" "js ''info''" "js ''hi''" None "js ''hi''"] t s2 len(2)
  have e2: "encoded ?p (js ''app'') (js ''info'') (js ''hi'') None (0 :: nat) = Some (js ''hi'')"
    by blast
  from oversized_line_is_truncated
    [of ?p 0 ?stamp "js ''app''" "js ''info''" "js ''hi''" None "js ''hi''"
        "opened_on [] []" "js ''hi''" "world_with (Some [])" "all_succeed 4 100"] t s2 e2 name
  have "priv_write ?p (opened_on [] []) (world_with (Some [])) (all_succeed 4 100)
       (js ''info'') (js ''hi'') None (0 :: nat)
     = flush ((opened_on [] [])\<lparr>pendingWrites := pendingWrites (opened_on [] []) @ [js ''hi'']\<rparr>)
         (world_with (Some [])) (all_succeed 4 100)"
    by simp
  then have w: "priv_write ?p (opened_on [] []) (world_with (Some [])) (all_succeed 4 100)
       (js ''info'') (js ''hi'') None (0 :: nat)
     = flush (opened_on [] [js ''hi'']) (world_with (Some [])) (all_succeed 4 100)"
    by (simp add: opened_on_def)
  from t s1 s2 len e1 e2 w name show ?thesis by simp
qed

subsection \<open>The offsets after a round\<close>

text \<open>
  Claim C6, as the code has it. Say that the logger describes its file when its descriptor
  names the file at \<^verbatim>\<open>logFileLocation\<close>, its \<^verbatim>\<open>size\<close> is the length of that file and
  its offsets are the positions of the newline bytes of that file. The logger describes its
  file, and \<^verbatim>\<open>lines\<close> is the number of offsets, after a successful \<^verbatim>\<open>open\<close> that has
  read the file, and after one that found no file with the three counters still at zero.
  When the logger describes its file before a round of \<^verbatim>\<open>_flush\<close> and the round
  completes, with or without a cut and also when the write transferred fewer bytes than
  requested, the logger describes its file after the round, and so it does after a
  truncation that completes, called as \<^verbatim>\<open>_flush\<close> calls it: then the offsets are
  strictly increasing and each is the position of a newline byte of the file. \<^verbatim>\<open>lines\<close>
  equals the number of offsets after a truncation if it did before, and after a round if it
  did before, the write transferred the whole buffer and no queued line holds a newline.
\<close>

theorem offsets_invariant:
  "(readFile_fault i = None \<and> open_logger s w i = (Done, s', w') \<and>
    (logfile w = None \<longrightarrow> size_bytes s = 0 \<and> newLineOffsets s = [] \<and> lines s = 0) \<longrightarrow>
      tracks s' w' \<and> names_logfile w' (fd s') \<and> counted s') \<and>
   (tracks s w \<and> names_logfile w (fd s) \<and> priv_flush s w i = (Done, s', w') \<longrightarrow>
     tracks s' w' \<and> names_logfile w' (fd s') \<and>
     sorted_wrt (<) (newLineOffsets s') \<and>
     (\<forall>x\<in>set (newLineOffsets s'). 0 \<le> x \<and>
        (case logfile w' of
           None \<Rightarrow> False
         | Some buf \<Rightarrow> nat x < length buf \<and> buf ! nat x = newLineByte)) \<and>
     (counted s \<and> pendingWrites s \<noteq> [] \<and> (\<forall>l\<in>set (pendingWrites s). newLine \<notin> set l) \<and>
      transferred s i = length (round_buffer s) \<longrightarrow> counted s')) \<and>
   (tracks s w \<and> truthy (fd s) \<and> k < length (newLineOffsets s) \<and>
    priv_truncate s w i (Number (newLineOffsets s ! k + 1)) (int k) = (Done, s', w') \<longrightarrow>
     tracks s' w' \<and> names_logfile w' (fd s') \<and>
     sorted_wrt (<) (newLineOffsets s') \<and>
     (\<forall>x\<in>set (newLineOffsets s'). 0 \<le> x \<and>
        (case logfile w' of
           None \<Rightarrow> False
         | Some buf \<Rightarrow> nat x < length buf \<and> buf ! nat x = newLineByte)) \<and>
     (counted s \<longrightarrow> counted s'))"
proof (intro conjI impI)
  assume "readFile_fault i = None \<and> open_logger s w i = (Done, s', w') \<and>
    (logfile w = None \<longrightarrow> size_bytes s = 0 \<and> newLineOffsets s = [] \<and> lines s = 0)"
  then show "tracks s' w'" "names_logfile w' (fd s')" "counted s'"
    using tracks_after_open [of i s w s' w'] by simp_all
next
  assume a: "tracks s w \<and> names_logfile w (fd s) \<and> priv_flush s w i = (Done, s', w')"
  let ?s1 = "after_write s i"
  let ?w1 = "world_after_write s w i"
  from a priv_flush_Done [of s w i s' w'] obtain ready where
    fd: "truthy (fd s)" and wr: "write_result i = Inr ready"
    by blast
  have fd1: "truthy (fd ?s1)" using fd by (simp add: after_write_fields)
  from a priv_flush_round [OF fd wr] have fin: "check_triggers ?s1 ?w1 i = (Done, s', w')"
    by simp
  from a have t1: "tracks ?s1 ?w1" by (simp add: tracks_after_write)
  from a have n1: "names_logfile ?w1 (fd ?s1)"
    by (simp add: names_logfile_after_write after_write_fields)
  have t': "tracks s' w'"
    using check_triggers_Done [OF fin fd1] t1 tracks_after_cut [OF t1 _ refl]
    by auto
  have n': "names_logfile w' (fd s')"
    using check_triggers_Done [OF fin fd1] n1
    by (auto simp add: names_logfile_def)
  have c': "counted s'" if c1: "counted ?s1"
    using check_triggers_Done [OF fin fd1] c1
    by (auto simp add: counted_def)
  from t' show "tracks s' w'" .
  from n' show "names_logfile w' (fd s')" .
  from tracks_sorted_positions [OF t'] show "sorted_wrt (<) (newLineOffsets s')" by simp
  from tracks_sorted_positions [OF t']
  show "\<forall>x\<in>set (newLineOffsets s'). 0 \<le> x \<and>
        (case logfile w' of
           None \<Rightarrow> False
         | Some buf \<Rightarrow> nat x < length buf \<and> buf ! nat x = newLineByte)"
    by simp
  assume "counted s \<and> pendingWrites s \<noteq> [] \<and> (\<forall>l\<in>set (pendingWrites s). newLine \<notin> set l) \<and>
      transferred s i = length (round_buffer s)"
  then show "counted s'"
    using c' counted_after_write [of s i] by blast
next
  assume a: "tracks s w \<and> truthy (fd s) \<and> k < length (newLineOffsets s) \<and>
    priv_truncate s w i (Number (newLineOffsets s ! k + 1)) (int k) = (Done, s', w')"
  let ?position = "newLineOffsets s ! k + 1"
  from a priv_truncate_Done [of s w i "Number ?position" "int k" s' w'] obtain newFd where
    s': "s' = s\<lparr>lines := lines s - int k - 1, size_bytes := size_bytes s - ?position,
            newLineOffsets := map (\<lambda>offset. offset - ?position)
                (slice_from (newLineOffsets s) (int k + 1)),
            fd := Some newFd\<rparr>"
    and w': "w' = w\<lparr>logfile := map_option (drop (nat ?position)) (logfile w),
            path_fds := {newFd}\<rparr>"
    by auto
  have sl: "slice_from (newLineOffsets s) (int k + 1) = drop (Suc k) (newLineOffsets s)"
    by (simp add: slice_from_drop nat_add_distrib)
  from w' have cut: "logfile w' = map_option (drop (nat ?position)) (logfile w)" by simp
  from a have "tracks s w" "k < length (newLineOffsets s)" by simp_all
  from tracks_after_cut [OF this refl cut] s' sl show t': "tracks s' w'" by simp
  from s' w' show "names_logfile w' (fd s')" by (simp add: names_logfile_def)
  from tracks_sorted_positions [OF t'] show "sorted_wrt (<) (newLineOffsets s')" by simp
  from tracks_sorted_positions [OF t']
  show "\<forall>x\<in>set (newLineOffsets s'). 0 \<le> x \<and>
        (case logfile w' of
           None \<Rightarrow> False
         | Some buf \<Rightarrow> nat x < length buf \<and> buf ! nat x = newLineByte)"
    by simp
  assume "counted s"
  with a s' sl show "counted s'" by (simp add: counted_def)
qed

theorem offsets_invariant_witness:
  "readFile_fault (all_succeed 3 0) = None \<and>
   logfile (world_with (Some [0x61, 0x0A])) \<noteq> None \<and>
   open_logger (new_logger (js ''app'')) (world_with (Some [0x61, 0x0A])) (all_succeed 3 0)
     = (Done, opened_on [0x61, 0x0A] [], world_opened [0x61, 0x0A]) \<and>
   tracks (opened_on [0x61, 0x0A] []) (world_opened [0x61, 0x0A]) \<and>
   names_logfile (world_opened [0x61, 0x0A]) (fd (opened_on [0x61, 0x0A] [])) \<and>
   counted (opened_on [0x61, 0x0A] []) \<and>
   tracks (opened_on [0x61, 0x0A] [js ''b'', js ''c'']) (world_opened [0x61, 0x0A]) \<and>
   names_logfile (world_opened [0x61, 0x0A]) (fd (opened_on [0x61, 0x0A] [js ''b'', js ''c''])) \<and>
   priv_flush (opened_on [0x61, 0x0A] [js ''b'', js ''c'']) (world_opened [0x61, 0x0A])
       (all_succeed 4 100)
     = (Done,
        (opened_on [0x61, 0x0A] [])\<lparr>writeCalled := 1, bytesWritten := 4, size_bytes := 6,
           lines := 3, newLineOffsets := [1, 3, 5]\<rparr>,
        \<lparr>logfile = Some [0x61, 0x0A, 0x62, 0x0A, 0x63, 0x0A], path_fds = {3},
         write_calls = [[0x62, 0x0A, 0x63, 0x0A]], reported = []\<rparr>) \<and>
   counted (opened_on [0x61, 0x0A] [js ''b'', js ''c'']) \<and>
   pendingWrites (opened_on [0x61, 0x0A] [js ''b'', js ''c'']) \<noteq> [] \<and>
   newLine \<notin> set (js ''b'') \<and> newLine \<notin> set (js ''c'') \<and>
   transferred (opened_on [0x61, 0x0A] [js ''b'', js ''c'']) (all_succeed 4 100)
     = length (round_buffer (opened_on [0x61, 0x0A] [js ''b'', js ''c''])) \<and>
   tracks ((opened_on [0x61, 0x0A] [])\<lparr>writeCalled := 1, bytesWritten := 4, size_bytes := 6,
           lines := 3, newLineOffsets := [1, 3, 5]\<rparr>)
        \<lparr>logfile = Some [0x61, 0x0A, 0x62, 0x0A, 0x63, 0x0A], path_fds = {3},
         write_calls = [[0x62, 0x0A, 0x63, 0x0A]], reported = []\<rparr> \<and>
   counted ((opened_on [0x61, 0x0A] [])\<lparr>writeCalled := 1, bytesWritten := 4, size_bytes := 6,
           lines := 3, newLineOffsets := [1, 3, 5]\<rparr>) \<and>
   truthy (fd (opened_on [0x61, 0x0A, 0x62, 0x0A] [])) \<and>
   (0 :: nat) < length (newLineOffsets (opened_on [0x61, 0x0A, 0x62, 0x0A] [])) \<and>
   newLineOffsets (opened_on [0x61, 0x0A, 0x62, 0x0A] []) ! 0 + 1 = 2 \<and>
   priv_truncate (opened_on [0x61, 0x0A, 0x62, 0x0A] []) (world_opened [0x61, 0x0A, 0x62, 0x0A])
       (all_succeed 4 100) (Number 2) 0
     = (Done, (opened_on [0x62, 0x0A] [])\<lparr>fd := Some 4\<rparr>,
        \<lparr>logfile = Some [0x62, 0x0A], path_fds = {4}, write_calls = [], reported = []\<rparr>) \<and>
   tracks ((opened_on [0x62, 0x0A] [])\<lparr>fd := Some 4\<rparr>)
        \<lparr>logfile = Some [0x62, 0x0A], path_fds = {4}, write_calls = [], reported = []\<rparr> \<and>
   names_logfile
        \<lparr>logfile = Some [0x62, 0x0A], path_fds = {4}, write_calls = [], reported = []\<rparr>
        (fd ((opened_on [0x62, 0x0A] [])\<lparr>fd := Some 4\<rparr>))"
proof -
  let ?s = "opened_on [0x61, 0x0A] [js ''b'', js ''c'']"
  let ?w = "world_opened [0x61, 0x0A]"
  let ?i = "all_succeed 4 100"
  let ?s' = "(opened_on [0x61, 0x0A] [])\<lparr>writeCalled := 1, bytesWritten := 4, size_bytes := 6,
           lines := 3, newLineOffsets := [1, 3, 5]\<rparr>"
  let ?w' = "\<lparr>logfile = Some [0x61, 0x0A, 0x62, 0x0A, 0x63, 0x0A], path_fds = {3},
         write_calls = [[0x62, 0x0A, 0x63, 0x0A]], reported = []\<rparr>"
  let ?t = "opened_on [0x61, 0x0A, 0x62, 0x0A] []"
  let ?wt = "world_opened [0x61, 0x0A, 0x62, 0x0A]"
  let ?t' = "(opened_on [0x62, 0x0A] [])\<lparr>fd := Some 4\<rparr>"
  let ?wt' = "\<lparr>logfile = Some [0x62, 0x0A], path_fds = {4}, write_calls = [], reported = []\<rparr>"
  have run: "priv_flush ?s ?w ?i = (Done, ?s', ?w')"
    by (simp add: priv_flush_def check_triggers_def written_def appended_def names_logfile_def
        opened_on_def world_opened_def all_succeed_def truthy_def Let_def js_def newLine_def
        utf8_def byte_of_def high_surrogate_def low_surrogate_def newline_positions_def
        newLineByte_def MAX_LOG_LINES_def MAX_LOG_FILE_SIZE_def)
  have hyps: "tracks ?s ?w" "names_logfile ?w (fd ?s)" "counted ?s" "pendingWrites ?s \<noteq> []"
    "transferred ?s ?i = length (round_buffer ?s)"
    by (simp_all add: tracks_opened_on names_logfile_def world_opened_fields counted_opened_on
        opened_on_fields transferred_def all_succeed_fields round_buffer_example)
  have free: "newLine \<notin> set (js ''b'')" "newLine \<notin> set (js ''c'')"
    by (simp_all add: js_def newLine_def)
  then have all_free: "\<forall>l\<in>set (pendingWrites ?s). newLine \<notin> set l"
    by (simp add: opened_on_fields)
  have present: "logfile (world_with (Some [0x61, 0x0A])) \<noteq> None"
    by (simp add: world_with_fields)
  have opened: "open_logger (new_logger (js ''app'')) (world_with (Some [0x61, 0x0A]))
      (all_succeed 3 0) = (Done, opened_on [0x61, 0x0A] [], ?w)"
    by (simp add: open_logger_def open_descriptor_def readFile_def world_with_def
        world_opened_def all_succeed_def new_logger_def truthy_def opened_on_def
        push_newlines_positions Let_def)
  from offsets_invariant [where i = "all_succeed 3 0" and s = "new_logger (js ''app'')"
      and w = "world_with (Some [0x61, 0x0A])" and s' = "opened_on [0x61, 0x0A] []" and w' = ?w
      and k = 0]
    opened all_succeed_fields(2) [of 3 0] present
  have base: "tracks (opened_on [0x61, 0x0A] []) ?w \<and>
    names_logfile ?w (fd (opened_on [0x61, 0x0A] [])) \<and> counted (opened_on [0x61, 0x0A] [])"
    by blast
  from offsets_invariant [where i = ?i and w = ?w and s' = ?s' and w' = ?w' and s = ?s
      and k = 0]
    run hyps all_free
  have step: "tracks ?s' ?w' \<and> counted ?s'" by blast
  have pre: "truthy (fd ?t)" "(0 :: nat) < length (newLineOffsets ?t)"
    "newLineOffsets ?t ! 0 + 1 = 2" "tracks ?t ?wt"
    by (simp_all add: opened_on_fields truthy_def newline_positions_def newLineByte_def
        tracks_opened_on)
  have cut: "priv_truncate ?t ?wt ?i (Number 2) 0 = (Done, ?t', ?wt')"
    by (simp add: priv_truncate_def opened_on_def world_opened_def all_succeed_def Let_def
        slice_from_def newline_positions_def newLineByte_def)
  from offsets_invariant [where i = ?i and w = ?wt and s' = ?t' and w' = ?wt' and s = ?t
      and k = 0] pre cut
  have after: "tracks ?t' ?wt' \<and> names_logfile ?wt' (fd ?t')" by simp
  from run hyps free opened base step present pre(1,2,3) cut after
    all_succeed_fields(2) [of 3 0] show ?thesis
    by simp
qed

text \<open>
  Counterexample to C6 as stated: the line \<^verbatim>\<open>ab\<close> is queued on an empty file and the
  write transfers two of the three bytes of \<^verbatim>\<open>ab\n\<close>. The round completes with
  \<^verbatim>\<open>lines\<close> 1 and no offset (line 295 adds the number of queued lines, the loop of
  lines 285-289 finds no newline among the bytes written).
\<close>

theorem partial_write_miscounts:
  "tracks (opened_on [] [js ''ab'']) (world_opened []) \<and>
   counted (opened_on [] [js ''ab'']) \<and>
   priv_flush (opened_on [] [js ''ab'']) (world_opened []) (all_succeed 4 2)
     = (Done,
        (opened_on [] [[newLine]])\<lparr>writeCalled := 1, bytesWritten := 2, size_bytes := 2,
           lines := 1, newLineOffsets := []\<rparr>,
        \<lparr>logfile = Some [0x61, 0x62], path_fds = {3}, write_calls = [[0x61, 0x62, 0x0A]],
         reported = []\<rparr>) \<and>
   lines ((opened_on [] [[newLine]])\<lparr>writeCalled := 1, bytesWritten := 2, size_bytes := 2,
           lines := 1, newLineOffsets := []\<rparr>)
     \<noteq> int (length (newLineOffsets ((opened_on [] [[newLine]])\<lparr>writeCalled := 1,
           bytesWritten := 2, size_bytes := 2, lines := 1, newLineOffsets := []\<rparr>)))"
  by (simp add: tracks_opened_on counted_opened_on)
    (simp add: priv_flush_def check_triggers_def written_def appended_def names_logfile_def
        opened_on_def world_opened_def all_succeed_def truthy_def Let_def js_def newLine_def
        utf8_def byte_of_def high_surrogate_def low_surrogate_def newline_positions_def
        newLineByte_def MAX_LOG_LINES_def MAX_LOG_FILE_SIZE_def)

subsection \<open>Failures on the write path: a rejected promise\<close>

text \<open>
  Claim C7 at an input where the code does not do what the claim says. The logger has
  opened a new, empty file; 4095 lines \<^verbatim>\<open>a\<close> wait in the queue, \<^verbatim>\<open>_write\<close> adds one
  more, and \<^verbatim>\<open>fs.write\<close> transfers one byte of the 8192 of the buffer. Line 295 makes
  \<^verbatim>\<open>lines\<close> 4096 while no offset has been recorded, so \<^verbatim>\<open>newLineOffsets[1024]\<close> is
  \<^verbatim>\<open>undefined\<close>, \<^verbatim>\<open>_truncate\<close> is called with \<^verbatim>\<open>NaN\<close>, \<^verbatim>\<open>fs.createReadStream\<close>
  throws, and the promise that \<^verbatim>\<open>_write\<close> returns is rejected; \<^verbatim>\<open>onError\<close> is not
  called. \<^verbatim>\<open>pendingFlush\<close> keeps the rejected promise, so the promise of every later
  \<^verbatim>\<open>_write\<close> is rejected at line 224, and its line stays in the queue.
\<close>

theorem write_promise_rejected:
  "tracks (opened_on [] (replicate 4095 (js ''a''))) (world_opened []) \<and>
   names_logfile (world_opened []) (fd (opened_on [] (replicate 4095 (js ''a'')))) \<and>
   counted (opened_on [] (replicate 4095 (js ''a''))) \<and>
   priv_write example_platform (opened_on [] (replicate 4095 (js ''a''))) (world_opened [])
       (all_succeed 4 1) (js ''info'') (js ''a'') (Some False) 0
     = (Rejected,
        (opened_on [] [[newLine]])\<lparr>writeCalled := 1, bytesWritten := 1, size_bytes := 1,
           lines := 4096, pendingFlush := Some Rejected\<rparr>,
        \<lparr>logfile = Some [0x61], path_fds = {3},
         write_calls = [concat (replicate 4096 [0x61, 0x0A])], reported = []\<rparr>) \<and>
   priv_write example_platform
       ((opened_on [] [[newLine]])\<lparr>writeCalled := 1, bytesWritten := 1, size_bytes := 1,
           lines := 4096, pendingFlush := Some Rejected\<rparr>)
       \<lparr>logfile = Some [0x61], path_fds = {3},
        write_calls = [concat (replicate 4096 [0x61, 0x0A])], reported = []\<rparr>
       (all_succeed 4 100) (js ''info'') (js ''b'') (Some False) 0
     = (Rejected,
        (opened_on [] [[newLine], js ''b''])\<lparr>writeCalled := 1, bytesWritten := 1,
           size_bytes := 1, lines := 4096, pendingFlush := Some Rejected\<rparr>,
        \<lparr>logfile = Some [0x61], path_fds = {3},
         write_calls = [concat (replicate 4096 [0x61, 0x0A])], reported = []\<rparr>)"
proof -
  let ?p = example_platform
  let ?s = "opened_on [] (replicate 4095 (js ''a''))"
  let ?q = "opened_on [] (replicate 4096 (js ''a''))"
  let ?w = "world_opened []"
  let ?i = "all_succeed 4 1"
  let ?s1 = "after_write ?q ?i"
  let ?w1 = "world_after_write ?q ?w ?i"
  let ?r = "(opened_on [] [[newLine]])\<lparr>writeCalled := 1, bytesWritten := 1, size_bytes := 1,
           lines := 4096, pendingFlush := Some Rejected\<rparr>"
  let ?wr = "\<lparr>logfile = Some [0x61], path_fds = {3},
         write_calls = [concat (replicate 4096 [0x61, 0x0A])], reported = []\<rparr>"
  note io = all_succeed_fields [of 4 1]
  have np0: "newline_positions [] = []"
    by (simp add: newline_positions_def)
  have enc: "encoded ?p (productName ?s) (js ''info'') (js ''a'') (Some False) 0 = Some (js ''a'')"
    "encoded ?p (js ''app'') (js ''info'') (js ''b'') (Some False) 0 = Some (js ''b'')"
    by (rule example_encoded, simp add: js_def MAX_LOG_LINE_SIZE_def)+
  have push: "?s\<lparr>pendingWrites := pendingWrites ?s @ [js ''a'']\<rparr> = ?q"
    by (simp add: opened_on_def replicate_append_same)
      (simp add: replicate_Suc [symmetric] del: replicate_Suc)
  have buf: "round_buffer ?q = concat (replicate 4096 [0x61, 0x0A])"
    by (rule round_buffer_replicate) simp
  have n: "transferred ?q ?i = 1"
    by (simp add: transferred_def all_succeed_fields buf concat_replicate_pair)
  have t1: "take 1 (concat (replicate 4096 [0x61, 0x0A :: byte])) = [0x61]"
    by (rule concat_replicate_pair) simp
  have len: "length (concat (replicate 4096 [0x61, 0x0A :: byte])) = 8192"
    by (simp add: concat_replicate_pair)
  have s1: "?s1 = (opened_on [] [[newLine]])\<lparr>writeCalled := 1, bytesWritten := 1,
      size_bytes := 1, lines := 4096\<rparr>"
    unfolding after_write_def written_def n buf t1 len
    by (simp add: opened_on_def np0 newLineByte_def Let_def)
  have w1: "?w1 = ?wr"
    unfolding world_after_write_def appended_def n buf t1
    by (simp add: world_opened_def names_logfile_def opened_on_fields)
  have "priv_flush ?q ?w ?i = check_triggers ?s1 ?w1 ?i"
    by (rule priv_flush_round [where ready = 1])
      (simp_all add: opened_on_fields truthy_def all_succeed_fields)
  also have "\<dots> = priv_truncate ?s1 ?w1 ?i
      (plus_number (at_index (newLineOffsets ?s1) 1024) 1) 1024"
    by (rule check_triggers_lines) (unfold s1, simp add: MAX_LOG_LINES_def)
  also have "\<dots> = (Rejected, ?s1, ?w1)"
    unfolding s1
    by (simp add: opened_on_fields np0 at_index_def plus_number_def priv_truncate_def)
  finally have round: "priv_flush ?q ?w ?i = (Rejected, ?s1, ?w1)" .
  have "flush ?q ?w ?i = (Rejected, ?s1\<lparr>pendingFlush := Some Rejected\<rparr>, ?w1)"
    using round by (intro flush_Rejected) (simp_all add: opened_on_fields)
  then have "flush ?q ?w ?i = (Rejected, ?r, ?wr)"
    unfolding s1 w1 by simp
  then have first: "priv_write ?p ?s ?w ?i (js ''info'') (js ''a'') (Some False) 0
      = (Rejected, ?r, ?wr)"
    by (simp add: priv_write_def enc push)
  have "flush (?r\<lparr>pendingWrites := pendingWrites ?r @ [js ''b'']\<rparr>) ?wr (all_succeed 4 100)
      = (Rejected, ?r\<lparr>pendingWrites := pendingWrites ?r @ [js ''b'']\<rparr>, ?wr)"
    by (rule flush_wedged) simp
  then have second: "priv_write ?p ?r ?wr (all_succeed 4 100) (js ''info'') (js ''b'') (Some False) 0
      = (Rejected,
        (opened_on [] [[newLine], js ''b''])\<lparr>writeCalled := 1, bytesWritten := 1,
           size_bytes := 1, lines := 4096, pendingFlush := Some Rejected\<rparr>, ?wr)"
    by (simp add: priv_write_def opened_on_def enc)
  from first second show ?thesis
    by (simp add: tracks_opened_on counted_opened_on names_logfile_def opened_on_fields
        world_opened_fields)
qed

subsection \<open>The errors of \<^verbatim>\<open>open\<close>\<close>

text \<open>
  Claim C8. The error of a failing \<^verbatim>\<open>open\<close> has \<^verbatim>\<open>shouldBail\<close> true exactly when the
  descriptor-open step failed with code \<^verbatim>\<open>EACCES\<close>. A failure to make the directory and a
  failure to read the old file give an \<^verbatim>\<open>OpenFailError\<close> that wraps the cause and does not
  bail; a failure of the descriptor-open step gives an \<^verbatim>\<open>OpenFailError\<close> that bails for
  \<^verbatim>\<open>EACCES\<close> only.
\<close>

theorem open_failure_bail:
  "open_logger s w i = (Failed e, s', w') \<longrightarrow>
     bails e = (case descriptor_open_failure s w i of
                  None \<Rightarrow> False
                | Some c \<Rightarrow> code c = ''EACCES'') \<and>
     (\<not> truthy (fd s) \<and> mkdir_result i = Some c \<longrightarrow>
        e = OpenFail (new_OpenFailError ''Could not mkdir for log file'' c) \<and> \<not> bails e) \<and>
     (\<not> truthy (fd s) \<and> mkdir_result i = None \<and> readFile w i = Inl c \<and>
      code c \<noteq> ''ENOENT'' \<longrightarrow>
        e = OpenFail (new_OpenFailError ''Could not read old file'' c) \<and> \<not> bails e) \<and>
     (descriptor_open_failure s w i = Some c \<longrightarrow>
        e = OpenFail ((new_OpenFailError ''Could not open log file'' c)
              \<lparr>shouldBail := (code c = ''EACCES'')\<rparr>))"
proof
  assume a: "open_logger s w i = (Failed e, s', w')"
  show "bails e = (case descriptor_open_failure s w i of
                  None \<Rightarrow> False
                | Some c \<Rightarrow> code c = ''EACCES'') \<and>
     (\<not> truthy (fd s) \<and> mkdir_result i = Some c \<longrightarrow>
        e = OpenFail (new_OpenFailError ''Could not mkdir for log file'' c) \<and> \<not> bails e) \<and>
     (\<not> truthy (fd s) \<and> mkdir_result i = None \<and> readFile w i = Inl c \<and>
      code c \<noteq> ''ENOENT'' \<longrightarrow>
        e = OpenFail (new_OpenFailError ''Could not read old file'' c) \<and> \<not> bails e) \<and>
     (descriptor_open_failure s w i = Some c \<longrightarrow>
        e = OpenFail ((new_OpenFailError ''Could not open log file'' c)
              \<lparr>shouldBail := (code c = ''EACCES'')\<rparr>))"
  proof (cases "truthy (fd s)")
    case True
    with a show ?thesis
      by (simp add: open_logger_def descriptor_open_failure_def)
  next
    case fd: False
    show ?thesis
    proof (cases "mkdir_result i")
      case (Some mkdirErr)
      with a fd show ?thesis
        by (auto simp add: open_logger_def descriptor_open_failure_def OpenFailError_wrap_def
            new_OpenFailError_def)
    next
      case None
      show ?thesis
      proof (cases "readFile w i")
        case (Inl readErr)
        show ?thesis
        proof (cases "code readErr = ''ENOENT''")
          case True
          with a fd None Inl have "open_descriptor s w i = (Failed e, s', w')"
            by (simp add: open_logger_def)
          from open_descriptor_Failed [OF this] fd None Inl True show ?thesis
            by (auto simp add: descriptor_open_failure_def new_OpenFailError_def)
        next
          case False
          with a fd None Inl show ?thesis
            by (auto simp add: open_logger_def descriptor_open_failure_def OpenFailError_wrap_def
                new_OpenFailError_def)
        qed
      next
        case (Inr buf)
        with a fd None obtain s1 where "open_descriptor s1 w i = (Failed e, s', w')"
          by (simp add: open_logger_def Let_def)
        from open_descriptor_Failed [OF this] fd None Inr show ?thesis
          by (auto simp add: descriptor_open_failure_def new_OpenFailError_def)
      qed
    qed
  qed
qed

theorem open_failure_bail_witness:
  "open_logger (new_logger (js ''app'')) (world_with None)
       ((all_succeed 3 0)\<lparr>open_result :=
           Inl \<lparr>code = ''EACCES'', syscall = ''open'', path = ''/log''\<rparr>\<rparr>)
     = (Failed (OpenFail \<lparr>message = ''Could not open log file'',
                  wrapped = \<lparr>code = ''EACCES'', syscall = ''open'', path = ''/log''\<rparr>,
                  shouldBail = True, err_code = ''EACCES'', err_syscall = ''open'',
                  err_path = ''/log''\<rparr>),
        new_logger (js ''app''), world_with None) \<and>
   descriptor_open_failure (new_logger (js ''app'')) (world_with None)
       ((all_succeed 3 0)\<lparr>open_result :=
           Inl \<lparr>code = ''EACCES'', syscall = ''open'', path = ''/log''\<rparr>\<rparr>)
     = Some \<lparr>code = ''EACCES'', syscall = ''open'', path = ''/log''\<rparr> \<and>
   open_logger (new_logger (js ''app'')) (world_with None)
       ((all_succeed 3 0)\<lparr>mkdir_result :=
           Some \<lparr>code = ''EACCES'', syscall = ''mkdir'', path = ''/''\<rparr>\<rparr>)
     = (Failed (OpenFail \<lparr>message = ''Could not mkdir for log file'',
                  wrapped = \<lparr>code = ''EACCES'', syscall = ''mkdir'', path = ''/''\<rparr>,
                  shouldBail = False, err_code = ''EACCES'', err_syscall = ''mkdir'',
                  err_path = ''/''\<rparr>),
        new_logger (js ''app''), world_with None) \<and>
   open_logger (new_logger (js ''app'')) (world_with (Some []))
       ((all_succeed 3 0)\<lparr>readFile_fault :=
           Some \<lparr>code = ''EACCES'', syscall = ''open'', path = ''/log''\<rparr>\<rparr>)
     = (Failed (OpenFail \<lparr>message = ''Could not read old file'',
                  wrapped = \<lparr>code = ''EACCES'', syscall = ''open'', path = ''/log''\<rparr>,
                  shouldBail = False, err_code = ''EACCES'', err_syscall = ''open'',
                  err_path = ''/log''\<rparr>),
        new_logger (js ''app''), world_with (Some []))"
proof -
  let ?c = "\<lparr>code = ''EACCES'', syscall = ''open'', path = ''/log''\<rparr>"
  let ?m = "\<lparr>code = ''EACCES'', syscall = ''mkdir'', path = ''/''\<rparr>"
  let ?s = "new_logger (js ''app'')"
  let ?i1 = "(all_succeed 3 0)\<lparr>open_result := Inl ?c\<rparr>"
  let ?i2 = "(all_succeed 3 0)\<lparr>mkdir_result := Some ?m\<rparr>"
  let ?i3 = "(all_succeed 3 0)\<lparr>readFile_fault := Some ?c\<rparr>"
  have pre: "\<not> truthy (fd ?s)" "mkdir_result ?i2 = Some ?m" "mkdir_result ?i3 = None"
    "readFile (world_with (Some [])) ?i3 = Inl ?c" "code ?c \<noteq> ''ENOENT''"
    "descriptor_open_failure ?s (world_with None) ?i1 = Some ?c"
    by (simp_all add: new_logger_def truthy_def all_succeed_def readFile_def world_with_def
        descriptor_open_failure_def ENOENT_def)
  obtain e1 s1 w1 where r1: "open_logger ?s (world_with None) ?i1 = (Failed e1, s1, w1)"
    by (simp add: open_logger_def open_descriptor_def new_logger_def truthy_def
        all_succeed_def readFile_def world_with_def ENOENT_def)
  obtain e2 s2 w2 where r2: "open_logger ?s (world_with None) ?i2 = (Failed e2, s2, w2)"
    by (simp add: open_logger_def new_logger_def truthy_def all_succeed_def)
  obtain e3 s3 w3 where r3: "open_logger ?s (world_with (Some [])) ?i3 = (Failed e3, s3, w3)"
    by (simp add: open_logger_def new_logger_def truthy_def all_succeed_def readFile_def
        world_with_def)
  from open_failure_bail [of ?s "world_with None" ?i1 e1 s1 w1 ?c] r1 pre
  have e1: "e1 = OpenFail ((new_OpenFailError ''Could not open log file'' ?c)
              \<lparr>shouldBail := (code ?c = ''EACCES'')\<rparr>)"
    by blast
  from open_failure_bail [of ?s "world_with None" ?i2 e2 s2 w2 ?m] r2 pre
  have e2: "e2 = OpenFail (new_OpenFailError ''Could not mkdir for log file'' ?m)"
    by blast
  from open_failure_bail [of ?s "world_with (Some [])" ?i3 e3 s3 w3 ?c] r3 pre
  have e3: "e3 = OpenFail (new_OpenFailError ''Could not read old file'' ?c)"
    by blast
  have s1: "s1 = ?s \<and> w1 = world_with None"
    using r1 by (simp add: open_logger_def open_descriptor_def new_logger_def truthy_def
        all_succeed_def readFile_def world_with_def ENOENT_def)
  have s2: "s2 = ?s \<and> w2 = world_with None"
    using r2 by (simp add: open_logger_def new_logger_def truthy_def all_succeed_def)
  have s3: "s3 = ?s \<and> w3 = world_with (Some [])"
    using r3 by (simp add: open_logger_def new_logger_def truthy_def all_succeed_def
        readFile_def world_with_def)
  from r1 r2 r3 e1 e2 e3 s1 s2 s3 pre(6) show ?thesis
    by (simp add: new_OpenFailError_def)
qed

section \<open>Further properties\<close>

subsection \<open>Failures on the write path\<close>

text \<open>
  \<^verbatim>\<open>_write\<close> does not throw. When the \<^verbatim>\<open>try\<close> block throws, which it does when
  \<^verbatim>\<open>JSON.stringify\<close> throws, \<^verbatim>\<open>onError\<close> receives the wrapped exception, and the
  queue, the file and the write counter are untouched. Otherwise, if \<^verbatim>\<open>pendingFlush\<close>
  holds no rejected promise: when the round finds \<^verbatim>\<open>fd\<close> falsy, \<^verbatim>\<open>onError\<close> receives
  the error of line 251, the queue is empty afterwards, and nothing was written; when
  \<^verbatim>\<open>fs.write\<close> fails, \<^verbatim>\<open>onError\<close> receives the wrapped cause, the queue is empty
  afterwards and the file is as before. In these three cases the promise resolves. In
  every case the promise settles, and it is rejected exactly when the line could be
  encoded and either \<^verbatim>\<open>pendingFlush\<close> holds a rejected promise or the write of the
  round succeeds, leaves \<^verbatim>\<open>lines\<close> at 4096 or more, and the cut position is \<^verbatim>\<open>NaN\<close>
  (no offset with index 1024) or negative.
\<close>

theorem write_path_reports:
  "(encoded p (productName s) lvl m info t = None \<longrightarrow>
      priv_write p s w i lvl m info t
        = (Done, s,
           w\<lparr>reported := reported w @
                [WrappedException ''_write() threw an unexpected exception'']\<rparr>)) \<and>
   (toISOString p t = Some stamp \<and>
    JSON_stringify p
      \<lparr>name = productName s, hostname = os_hostname p, pid = process_pid p, level = lvl,
       msg = m, time = stamp, v_version = 1,
       fields_obj = (case info of None \<Rightarrow> EMPTY_OBJECT | Some f \<Rightarrow> Info f),
       truncated = None\<rparr> = None \<longrightarrow>
      encoded p (productName s) lvl m info t = None) \<and>
   (encoded p (productName s) lvl m info t = Some str \<and> pendingFlush s \<noteq> Some Rejected \<and>
    \<not> truthy (fd s) \<longrightarrow>
      priv_write p s w i lvl m info t
        = (Done, s\<lparr>pendingWrites := [], pendingFlush := None\<rparr>,
           w\<lparr>reported := reported w @ [FdIsNull]\<rparr>)) \<and>
   (encoded p (productName s) lvl m info t = Some str \<and> pendingFlush s \<noteq> Some Rejected \<and>
    truthy (fd s) \<and> write_result i = Inl c \<longrightarrow>
      priv_write p s w i lvl m info t
        = (Done, s\<lparr>pendingWrites := [], writeCalled := writeCalled s + 1, pendingFlush := None\<rparr>,
           w\<lparr>write_calls := write_calls w @
                [round_buffer (s\<lparr>pendingWrites := pendingWrites s @ [str]\<rparr>)],
              reported := reported w @ [Wrapped ''_write() could not write(fd)'' c]\<rparr>)) \<and>
   (fst (priv_write p s w i lvl m info t) = Done \<or>
    fst (priv_write p s w i lvl m info t) = Rejected) \<and>
   (fst (priv_write p s w i lvl m info t) = Rejected \<longleftrightarrow>
      (\<exists>str. encoded p (productName s) lvl m info t = Some str \<and>
         (pendingFlush s = Some Rejected \<or>
          truthy (fd s) \<and> (\<exists>ready. write_result i = Inr ready) \<and>
          MAX_LOG_LINES
            \<le> lines (after_write (s\<lparr>pendingWrites := pendingWrites s @ [str]\<rparr>) i) \<and>
          (length (newLineOffsets
               (after_write (s\<lparr>pendingWrites := pendingWrites s @ [str]\<rparr>) i)) \<le> 1024 \<or>
           newLineOffsets
               (after_write (s\<lparr>pendingWrites := pendingWrites s @ [str]\<rparr>) i) ! 1024 + 1
             < 0))))"
proof (intro conjI impI)
  assume "encoded p (productName s) lvl m info t = None"
  then show "priv_write p s w i lvl m info t
        = (Done, s,
           w\<lparr>reported := reported w @
                [WrappedException ''_write() threw an unexpected exception'']\<rparr>)"
    by (simp add: priv_write_def)
next
  assume "toISOString p t = Some stamp \<and>
    JSON_stringify p
      \<lparr>name = productName s, hostname = os_hostname p, pid = process_pid p, level = lvl,
       msg = m, time = stamp, v_version = 1,
       fields_obj = (case info of None \<Rightarrow> EMPTY_OBJECT | Some f \<Rightarrow> Info f),
       truncated = None\<rparr> = None"
  then show "encoded p (productName s) lvl m info t = None"
    by (simp add: encoded_def new_LogLine_def)
next
  assume "encoded p (productName s) lvl m info t = Some str \<and> pendingFlush s \<noteq> Some Rejected \<and>
    \<not> truthy (fd s)"
  then show "priv_write p s w i lvl m info t
        = (Done, s\<lparr>pendingWrites := [], pendingFlush := None\<rparr>,
           w\<lparr>reported := reported w @ [FdIsNull]\<rparr>)"
    by (simp add: priv_write_def flush_def priv_flush_no_descriptor)
next
  assume "encoded p (productName s) lvl m info t = Some str \<and> pendingFlush s \<noteq> Some Rejected \<and>
    truthy (fd s) \<and> write_result i = Inl c"
  then show "priv_write p s w i lvl m info t
        = (Done, s\<lparr>pendingWrites := [], writeCalled := writeCalled s + 1, pendingFlush := None\<rparr>,
           w\<lparr>write_calls := write_calls w @
                [round_buffer (s\<lparr>pendingWrites := pendingWrites s @ [str]\<rparr>)],
              reported := reported w @ [Wrapped ''_write() could not write(fd)'' c]\<rparr>)"
    by (simp add: priv_write_def flush_def priv_flush_write_error)
next
  show "fst (priv_write p s w i lvl m info t) = Done \<or>
    fst (priv_write p s w i lvl m info t) = Rejected"
    using flush_settles by (simp add: priv_write_def split: option.splits)
next
  show "fst (priv_write p s w i lvl m info t) = Rejected \<longleftrightarrow>
      (\<exists>str. encoded p (productName s) lvl m info t = Some str \<and>
         (pendingFlush s = Some Rejected \<or>
          truthy (fd s) \<and> (\<exists>ready. write_result i = Inr ready) \<and>
          MAX_LOG_LINES
            \<le> lines (after_write (s\<lparr>pendingWrites := pendingWrites s @ [str]\<rparr>) i) \<and>
          (length (newLineOffsets
               (after_write (s\<lparr>pendingWrites := pendingWrites s @ [str]\<rparr>) i)) \<le> 1024 \<or>
           newLineOffsets
               (after_write (s\<lparr>pendingWrites := pendingWrites s @ [str]\<rparr>) i) ! 1024 + 1
             < 0)))"
    by (cases "encoded p (productName s) lvl m info t")
      (simp_all add: priv_write_def flush_Rejected_iff priv_flush_Rejected)
qed

theorem write_path_reports_witness:
  "encoded example_platform (productName (opened_on [] [])) (js ''error'') (js ''m'')
       (Some True) 0 = None \<and>
   priv_write example_platform (opened_on [] []) (world_opened []) (all_succeed 4 100)
       (js ''error'') (js ''m'') (Some True) 0
     = (Done, opened_on [] [],
        \<lparr>logfile = Some [], path_fds = {3}, write_calls = [],
         reported = [WrappedException ''_write() threw an unexpected exception'']\<rparr>) \<and>
   encoded example_platform (productName ((opened_on [] [])\<lparr>fd := None\<rparr>)) (js ''info'')
       (js ''m'') (Some False) 0 = Some (js ''m'') \<and>
   pendingFlush ((opened_on [] [])\<lparr>fd := None\<rparr>) \<noteq> Some Rejected \<and>
   \<not> truthy (fd ((opened_on [] [])\<lparr>fd := None\<rparr>)) \<and>
   priv_write example_platform ((opened_on [] [])\<lparr>fd := None\<rparr>) (world_opened [])
       (all_succeed 4 100) (js ''info'') (js ''m'') (Some False) 0
     = (Done, (opened_on [] [])\<lparr>fd := None\<rparr>,
        \<lparr>logfile = Some [], path_fds = {3}, write_calls = [], reported = [FdIsNull]\<rparr>) \<and>
   truthy (fd (opened_on [] [])) \<and>
   write_result ((all_succeed 4 100)\<lparr>write_result :=
       Inl \<lparr>code = ''EBADF'', syscall = ''write'', path = ''''\<rparr>\<rparr>)
     = Inl \<lparr>code = ''EBADF'', syscall = ''write'', path = ''''\<rparr> \<and>
   priv_write example_platform (opened_on [] []) (world_opened [])
       ((all_succeed 4 100)\<lparr>write_result :=
           Inl \<lparr>code = ''EBADF'', syscall = ''write'', path = ''''\<rparr>\<rparr>)
       (js ''info'') (js ''m'') (Some False) 0
     = (Done, (opened_on [] [])\<lparr>writeCalled := 1\<rparr>,
        \<lparr>logfile = Some [], path_fds = {3}, write_calls = [[0x6D, 0x0A]],
         reported = [Wrapped ''_write() could not write(fd)''
            \<lparr>code = ''EBADF'', syscall = ''write'', path = ''''\<rparr>]\<rparr>)"
proof -
  let ?p = example_platform
  let ?s = "opened_on [] []"
  let ?n = "(opened_on [] [])\<lparr>fd := None\<rparr>"
  let ?w = "world_opened []"
  let ?c = "\<lparr>code = ''EBADF'', syscall = ''write'', path = ''''\<rparr>"
  let ?i = "all_succeed 4 100"
  let ?j = "(all_succeed 4 100)\<lparr>write_result := Inl ?c\<rparr>"
  have e1: "encoded ?p (productName ?s) (js ''error'') (js ''m'') (Some True) 0 = None"
    by (rule example_encoded)
  have e2: "encoded ?p (productName ?n) (js ''info'') (js ''m'') (Some False) 0 = Some (js ''m'')"
    "encoded ?p (productName ?s) (js ''info'') (js ''m'') (Some False) 0 = Some (js ''m'')"
    by (rule example_encoded, simp add: js_def MAX_LOG_LINE_SIZE_def)+
  have fd: "\<not> truthy (fd ?n)" "truthy (fd ?s)" "write_result ?j = Inl ?c"
    "pendingFlush ?n \<noteq> Some Rejected" "pendingFlush ?s \<noteq> Some Rejected"
    by (simp_all add: truthy_def opened_on_fields)
  have buf: "round_buffer (?s\<lparr>pendingWrites := pendingWrites ?s @ [js ''m'']\<rparr>) = [0x6D, 0x0A]"
    by (simp add: round_buffer_def opened_on_fields js_def newLine_def utf8_def byte_of_def
        high_surrogate_def low_surrogate_def)
  from write_path_reports [of ?p ?s "js ''error''" "js ''m''" "Some True" 0 ?w ?i,
      THEN conjunct1] e1
  have r1: "priv_write ?p ?s ?w ?i (js ''error'') (js ''m'') (Some True) 0
      = (Done, ?s, ?w\<lparr>reported := reported ?w @
            [WrappedException ''_write() threw an unexpected exception'']\<rparr>)"
    by (rule mp)
  from e2(1) fd(4) fd(1)
  have h2: "encoded ?p (productName ?n) (js ''info'') (js ''m'') (Some False) 0 = Some (js ''m'') \<and>
      pendingFlush ?n \<noteq> Some Rejected \<and> \<not> truthy (fd ?n)"
    by (intro conjI)
  from write_path_reports [of ?p ?n "js ''info''" "js ''m''" "Some False" 0 ?w ?i _ "js ''m''",
      THEN conjunct2, THEN conjunct2, THEN conjunct1] h2
  have r2: "priv_write ?p ?n ?w ?i (js ''info'') (js ''m'') (Some False) 0
      = (Done, ?n\<lparr>pendingWrites := [], pendingFlush := None\<rparr>,
         ?w\<lparr>reported := reported ?w @ [FdIsNull]\<rparr>)"
    by (rule mp)
  from e2(2) fd(5) fd(2) fd(3)
  have h3: "encoded ?p (productName ?s) (js ''info'') (js ''m'') (Some False) 0 = Some (js ''m'') \<and>
      pendingFlush ?s \<noteq> Some Rejected \<and> truthy (fd ?s) \<and> write_result ?j = Inl ?c"
    by (intro conjI)
  from write_path_reports [of ?p ?s "js ''info''" "js ''m''" "Some False" 0 ?w ?j _ "js ''m''" ?c,
      THEN conjunct2, THEN conjunct2, THEN conjunct2, THEN conjunct1] h3
  have r3: "priv_write ?p ?s ?w ?j (js ''info'') (js ''m'') (Some False) 0
      = (Done, ?s\<lparr>pendingWrites := [], writeCalled := writeCalled ?s + 1, pendingFlush := None\<rparr>,
         ?w\<lparr>write_calls := write_calls ?w @
                [round_buffer (?s\<lparr>pendingWrites := pendingWrites ?s @ [js ''m'']\<rparr>)],
             reported := reported ?w @ [Wrapped ''_write() could not write(fd)'' ?c]\<rparr>)"
    by (rule mp)
  have n: "?n\<lparr>pendingWrites := [], pendingFlush := None\<rparr> = ?n"
    and s: "?s\<lparr>pendingWrites := [], writeCalled := writeCalled ?s + 1, pendingFlush := None\<rparr>
      = ?s\<lparr>writeCalled := 1\<rparr>"
    by (simp_all add: opened_on_def)
  have g1: "priv_write ?p ?s ?w ?i (js ''error'') (js ''m'') (Some True) 0
     = (Done, ?s,
        \<lparr>logfile = Some [], path_fds = {3}, write_calls = [],
         reported = [WrappedException ''_write() threw an unexpected exception'']\<rparr>)"
    unfolding r1 by (simp add: world_opened_def)
  have g2: "priv_write ?p ?n ?w ?i (js ''info'') (js ''m'') (Some False) 0
     = (Done, ?n,
        \<lparr>logfile = Some [], path_fds = {3}, write_calls = [], reported = [FdIsNull]\<rparr>)"
    unfolding r2 n by (simp add: world_opened_def)
  have g3: "priv_write ?p ?s ?w ?j (js ''info'') (js ''m'') (Some False) 0
     = (Done, ?s\<lparr>writeCalled := 1\<rparr>,
        \<lparr>logfile = Some [], path_fds = {3}, write_calls = [[0x6D, 0x0A]],
         reported = [Wrapped ''_write() could not write(fd)'' ?c]\<rparr>)"
    unfolding r3 s buf by (simp add: world_opened_def)
  from e1 g1 e2(1) fd(4) fd(1) g2 fd(2) fd(3) g3 show ?thesis
    by (intro conjI)
qed

subsection \<open>Recovery at \<^verbatim>\<open>open\<close>\<close>

text \<open>
  When the log file exists with content \<open>B\<close> (and reading it does not fail), a successful
  \<^verbatim>\<open>open\<close>, on any logger, leaves \<^verbatim>\<open>size\<close> equal to the length of \<open>B\<close>,
  \<^verbatim>\<open>newLineOffsets\<close> equal to the positions of all newline bytes of \<open>B\<close>, in strictly
  increasing order, and \<^verbatim>\<open>lines\<close> equal to the number of newline bytes; nothing has been
  queued or written and the file is as it was. When there is no log file, \<^verbatim>\<open>open\<close>
  succeeds if the directory can be made and the descriptor opened, creates the file empty,
  and does not touch \<^verbatim>\<open>size\<close>, \<^verbatim>\<open>lines\<close> and \<^verbatim>\<open>newLineOffsets\<close>, which are 0, 0 and
  empty on a logger that comes from the constructor.
\<close>

theorem open_recovers_accounting:
  "(logfile w = Some B \<and> readFile_fault i = None \<and> open_logger s w i = (Done, s', w') \<longrightarrow>
      size_bytes s' = int (length B) \<and>
      newLineOffsets s' = newline_positions B \<and>
      sorted_wrt (<) (newLineOffsets s') \<and>
      lines s' = int (length (filter (\<lambda>b. b = newLineByte) B)) \<and>
      pendingWrites s' = pendingWrites s \<and> write_calls w' = write_calls w \<and>
      logfile w' = Some B) \<and>
   (logfile w = None \<and> \<not> truthy (fd s) \<and> mkdir_result i = None \<and>
    open_result i = Inr newFd \<longrightarrow>
      open_logger s w i
        = (Done, s\<lparr>hasOpened := True, fd := Some newFd\<rparr>,
           w\<lparr>logfile := Some [], path_fds := insert newFd (path_fds w)\<rparr>)) \<and>
   size_bytes (new_logger product) = 0 \<and> lines (new_logger product) = 0 \<and>
   newLineOffsets (new_logger product) = [] \<and> \<not> truthy (fd (new_logger product))"
proof (intro conjI impI)
  assume a: "logfile w = Some B \<and> readFile_fault i = None \<and> open_logger s w i = (Done, s', w')"
  then have r: "readFile w i = Inr B" by (simp add: readFile_def)
  let ?s1 = "s\<lparr>size_bytes := int (length B), newLineOffsets := push_newlines B 0 [],
               lines := int (length (push_newlines B 0 []))\<rparr>"
  from a r have "open_descriptor ?s1 w i = (Done, s', w')"
    by (simp add: open_logger_def Let_def split: if_splits option.splits)
  from open_descriptor_Done [OF this] a
  have s': "\<exists>newFd. s' = ?s1\<lparr>hasOpened := True, fd := Some newFd\<rparr>"
    and w': "logfile w' = Some B" "write_calls w' = write_calls w"
    by auto
  from s' show "size_bytes s' = int (length B)" by auto
  from s' show "newLineOffsets s' = newline_positions B"
    by (auto simp add: push_newlines_positions)
  from s' show "sorted_wrt (<) (newLineOffsets s')"
    by (auto simp add: push_newlines_sorted)
  from s' show "lines s' = int (length (filter (\<lambda>b. b = newLineByte) B))"
    by (auto simp add: length_push_newlines)
  from s' show "pendingWrites s' = pendingWrites s" by auto
  from w' show "write_calls w' = write_calls w" "logfile w' = Some B" by simp_all
next
  assume "logfile w = None \<and> \<not> truthy (fd s) \<and> mkdir_result i = None \<and>
    open_result i = Inr newFd"
  then show "open_logger s w i
        = (Done, s\<lparr>hasOpened := True, fd := Some newFd\<rparr>,
           w\<lparr>logfile := Some [], path_fds := insert newFd (path_fds w)\<rparr>)"
    by (simp add: open_logger_absent open_descriptor_def)
qed (simp_all add: new_logger_def truthy_def)

theorem open_recovers_accounting_witness:
  "logfile (world_with (Some [0x61, 0x0A, 0x62, 0x63, 0x0A])) = Some [0x61, 0x0A, 0x62, 0x63, 0x0A] \<and>
   readFile_fault (all_succeed 3 0) = None \<and>
   open_logger (new_logger (js ''app'')) (world_with (Some [0x61, 0x0A, 0x62, 0x63, 0x0A]))
       (all_succeed 3 0)
     = (Done,
        (new_logger (js ''app''))\<lparr>size_bytes := 5, newLineOffsets := [1, 4], lines := 2,
           hasOpened := True, fd := Some 3\<rparr>,
        world_opened [0x61, 0x0A, 0x62, 0x63, 0x0A]) \<and>
   newline_positions [0x61, 0x0A, 0x62, 0x63, 0x0A] = [1, 4] \<and>
   logfile (world_with None) = None \<and> \<not> truthy (fd (new_logger (js ''app''))) \<and>
   mkdir_result (all_succeed 3 0) = None \<and> open_result (all_succeed 3 0) = Inr 3 \<and>
   open_logger (new_logger (js ''app'')) (world_with None) (all_succeed 3 0)
     = (Done, (new_logger (js ''app''))\<lparr>hasOpened := True, fd := Some 3\<rparr>, world_opened [])"
proof -
  let ?B = "[0x61, 0x0A, 0x62, 0x63, 0x0A] :: byte list"
  let ?n = "new_logger (js ''app'')"
  let ?s' = "(new_logger (js ''app''))\<lparr>size_bytes := 5, newLineOffsets := [1, 4], lines := 2,
           hasOpened := True, fd := Some 3\<rparr>"
  have run: "open_logger ?n (world_with (Some ?B)) (all_succeed 3 0)
      = (Done, ?s', world_opened ?B)"
    by (simp add: open_logger_def open_descriptor_def readFile_def world_with_def
        world_opened_def all_succeed_def new_logger_def truthy_def newLineByte_def)
  have hyps: "logfile (world_with (Some ?B)) = Some ?B" "readFile_fault (all_succeed 3 0) = None"
    "logfile (world_with None) = None" "mkdir_result (all_succeed 3 0) = None"
    "open_result (all_succeed 3 0) = Inr 3"
    by (simp_all add: world_with_def all_succeed_def)
  from open_recovers_accounting
    [of "world_with (Some ?B)" ?B "all_succeed 3 0" ?n ?s' "world_opened ?B"] run hyps
  have "newLineOffsets ?s' = newline_positions ?B" by blast
  then have np: "newline_positions ?B = [1, 4]" by simp
  from open_recovers_accounting [where w = "world_with None" and s = ?n
      and i = "all_succeed 3 0" and newFd = 3 and product = "js ''app''"] hyps
  have fresh: "\<not> truthy (fd ?n)"
    and "open_logger ?n (world_with None) (all_succeed 3 0)
      = (Done, ?n\<lparr>hasOpened := True, fd := Some 3\<rparr>,
         (world_with None)\<lparr>logfile := Some [], path_fds := insert 3 (path_fds (world_with None))\<rparr>)"
    by blast+
  then have absent: "open_logger ?n (world_with None) (all_succeed 3 0)
     = (Done, ?n\<lparr>hasOpened := True, fd := Some 3\<rparr>, world_opened [])"
    by (simp add: world_with_def world_opened_def)
  from run np absent hyps fresh show ?thesis by simp
qed

end
